theory Spec2Isabelle
  imports Complex_Main "HOL-Library.Stream"
begin

section \<open>Python values, errors and indexing\<close>

text \<open>
  The program is one Python module, \<^verbatim>\<open>main.py\<close>, built on numpy and on the standard
  module \<^verbatim>\<open>random\<close>. Every exception the modelled code can raise is a value of
  \<open>error\<close>; a function that can raise returns \<open>error + 'a\<close>, with \<open>Inl\<close> for the
  exception, and \<open>and_then\<close> passes the first exception on.
\<close>

datatype error = IndexError | ValueError | ZeroDivisionError

definition and_then :: "error + 'a \<Rightarrow> ('a \<Rightarrow> error + 'b) \<Rightarrow> error + 'b" where
  "and_then r k = (case r of Inl err \<Rightarrow> Inl err | Inr x \<Rightarrow> k x)"

text \<open>
  Indexing a sequence of length \<open>N\<close> with an integer, as Python lists and numpy arrays
  do it: an index in \<open>[-N, 0)\<close> counts from the end, an index outside \<open>[-N, N)\<close>
  raises \<^verbatim>\<open>IndexError\<close>.
\<close>

definition py_index :: "nat \<Rightarrow> int \<Rightarrow> error + nat" where
  "py_index N i =
     (if i < - int N \<or> int N \<le> i then Inl IndexError
      else if i < 0 then Inr (nat (i + int N))
      else Inr (nat i))"

definition py_get :: "'a list \<Rightarrow> int \<Rightarrow> error + 'a" where
  "py_get xs i = and_then (py_index (length xs) i) (\<lambda>k. Inr (xs ! k))"

section \<open>Floating-point values\<close>

text \<open>
  The pheromone values are numpy floats (\<^verbatim>\<open>float64\<close> and \<^verbatim>\<open>longdouble\<close>). A finite
  float is modelled by the real number it stands for, so rounding and overflow are
  outside the model; the two infinities and NaN are values of their own, because numpy
  produces them without raising (its default error state only warns on a division by
  zero). The sign of a zero is not modelled: \<open>Fin 0\<close> is \<open>+0.0\<close>.
\<close>

datatype ld = Fin real | PInf | NInf | NaN

instantiation ld :: comm_monoid_add
begin

definition zero_ld :: ld where
  "zero_ld = Fin 0"

fun plus_ld :: "ld \<Rightarrow> ld \<Rightarrow> ld" where
  "plus_ld (Fin a) (Fin b) = Fin (a + b)"
| "plus_ld (Fin a) PInf = PInf"
| "plus_ld (Fin a) NInf = NInf"
| "plus_ld PInf (Fin b) = PInf"
| "plus_ld PInf PInf = PInf"
| "plus_ld NInf (Fin b) = NInf"
| "plus_ld NInf NInf = NInf"
| "plus_ld PInf NInf = NaN"
| "plus_ld NInf PInf = NaN"
| "plus_ld NaN y = NaN"
| "plus_ld x NaN = NaN"

instance
proof
  fix u v w :: ld
  show "0 + u = u"
    by (cases u; simp add: zero_ld_def)
  show "u + v = v + u"
    by (cases u; cases v; simp)
  show "u + v + w = u + (v + w)"
    by (cases u; cases v; cases w; simp)
qed

end

fun ld_mul :: "ld \<Rightarrow> ld \<Rightarrow> ld" where
  "ld_mul (Fin a) (Fin b) = Fin (a * b)"
| "ld_mul (Fin a) PInf = (if 0 < a then PInf else if a < 0 then NInf else NaN)"
| "ld_mul (Fin a) NInf = (if 0 < a then NInf else if a < 0 then PInf else NaN)"
| "ld_mul PInf (Fin b) = (if 0 < b then PInf else if b < 0 then NInf else NaN)"
| "ld_mul NInf (Fin b) = (if 0 < b then NInf else if b < 0 then PInf else NaN)"
| "ld_mul PInf PInf = PInf"
| "ld_mul NInf NInf = PInf"
| "ld_mul PInf NInf = NInf"
| "ld_mul NInf PInf = NInf"
| "ld_mul NaN y = NaN"
| "ld_mul x NaN = NaN"

fun ld_div :: "ld \<Rightarrow> ld \<Rightarrow> ld" where
  "ld_div (Fin a) (Fin b) =
     (if b = 0 then (if 0 < a then PInf else if a < 0 then NInf else NaN)
      else Fin (a / b))"
| "ld_div (Fin a) PInf = Fin 0"
| "ld_div (Fin a) NInf = Fin 0"
| "ld_div PInf (Fin b) = (if 0 \<le> b then PInf else NInf)"
| "ld_div NInf (Fin b) = (if 0 \<le> b then NInf else PInf)"
| "ld_div PInf PInf = NaN"
| "ld_div PInf NInf = NaN"
| "ld_div NInf PInf = NaN"
| "ld_div NInf NInf = NaN"
| "ld_div NaN y = NaN"
| "ld_div x NaN = NaN"

text \<open>The comparisons \<open><\<close> and \<open><=\<close> of floats: every comparison with NaN is false.\<close>

fun ld_less :: "ld \<Rightarrow> ld \<Rightarrow> bool" where
  "ld_less (Fin a) (Fin b) = (a < b)"
| "ld_less (Fin a) PInf = True"
| "ld_less NInf (Fin b) = True"
| "ld_less NInf PInf = True"
| "ld_less x y = False"

fun ld_le :: "ld \<Rightarrow> ld \<Rightarrow> bool" where
  "ld_le (Fin a) (Fin b) = (a \<le> b)"
| "ld_le (Fin a) PInf = True"
| "ld_le NInf (Fin b) = True"
| "ld_le NInf PInf = True"
| "ld_le PInf PInf = True"
| "ld_le NInf NInf = True"
| "ld_le x y = False"

fun isfinite :: "ld \<Rightarrow> bool" where
  "isfinite (Fin a) = True"
| "isfinite x = False"

section \<open>numpy arrays\<close>

text \<open>
  A one-dimensional array is a list, a two-dimensional array a list of rows.
  \<^verbatim>\<open>np.arange(0, n)\<close> is empty for \<open>n \<le> 0\<close>; \<^verbatim>\<open>np.zeros((n, n))\<close> raises
  \<^verbatim>\<open>ValueError\<close> for a negative \<open>n\<close>; \<^verbatim>\<open>np.add\<close> adds two arrays of one shape
  entry by entry.
\<close>

definition arange :: "int \<Rightarrow> int list" where
  "arange n = map int [0..<nat n]"

definition zeros :: "int \<Rightarrow> error + 'a::zero list list" where
  "zeros n = (if n < 0 then Inl ValueError
              else Inr (replicate (nat n) (replicate (nat n) 0)))"

definition np_add :: "'a::plus list list \<Rightarrow> 'a list list \<Rightarrow> 'a list list" where
  "np_add A B = map2 (map2 (+)) A B"

text \<open>
  \<^verbatim>\<open>np.delete(arr, obj)\<close> with an array \<open>obj\<close> of integer indices, as numpy 1.19 and
  later define it: every index is read as Python reads an index (negative ones from the
  end, \<^verbatim>\<open>IndexError\<close> outside \<open>[-N, N)\<close>), and the entries at the positions named are
  left out.
\<close>

fun normalize_indices :: "nat \<Rightarrow> int list \<Rightarrow> error + nat list" where
  "normalize_indices N [] = Inr []"
| "normalize_indices N (i # is) =
     and_then (py_index N i) (\<lambda>k.
     and_then (normalize_indices N is) (\<lambda>ks. Inr (k # ks)))"

definition np_delete :: "'a list \<Rightarrow> int list \<Rightarrow> error + 'a list" where
  "np_delete arr obj =
     and_then (normalize_indices (length arr) obj) (\<lambda>ks.
       Inr (map (\<lambda>k. arr ! k) (filter (\<lambda>k. k \<notin> set ks) [0..<length arr])))"

section \<open>\<^verbatim>\<open>random.choices\<close>\<close>

text \<open>
  The state of Python's generator is the stream of the values \<^verbatim>\<open>random.random()\<close>
  will return, each in \<open>[0, 1)\<close>. \<^verbatim>\<open>random.choices(population, weights, k=1)\<close>, as
  CPython 3.9 and later define it:
  \<^verbatim>\<open>
  n = len(population)
  cum_weights = list(accumulate(weights))
  if len(cum_weights) != n: raise ValueError
  total = cum_weights[-1] + 0.0
  if total <= 0.0: raise ValueError
  if not isfinite(total): raise ValueError
  hi = n - 1
  return [population[bisect(cum_weights, random() * total, 0, hi)]]
  \<close>
  and \<^verbatim>\<open>bisect(a, x, lo, hi)\<close> is \<^verbatim>\<open>bisect_right\<close>:
  \<^verbatim>\<open>
  while lo < hi:
      mid = (lo + hi) // 2
      if x < a[mid]: hi = mid
      else: lo = mid + 1
  return lo
  \<close>
\<close>

fun accumulate_from :: "'a::plus \<Rightarrow> 'a list \<Rightarrow> 'a list" where
  "accumulate_from acc [] = []"
| "accumulate_from acc (x # xs) = (acc + x) # accumulate_from (acc + x) xs"

fun accumulate :: "'a::plus list \<Rightarrow> 'a list" where
  "accumulate [] = []"
| "accumulate (x # xs) = x # accumulate_from x xs"

function bisect :: "ld list \<Rightarrow> ld \<Rightarrow> nat \<Rightarrow> nat \<Rightarrow> nat" where
  "bisect a x lo hi =
     (if lo < hi
      then (let mid = (lo + hi) div 2
            in if ld_less x (a ! mid) then bisect a x lo mid else bisect a x (mid + 1) hi)
      else lo)"
  by pat_completeness auto
termination
  by (relation "measure (\<lambda>(a, x, lo, hi). hi - lo)") auto

declare bisect.simps [simp del]

definition choices :: "'a list \<Rightarrow> ld list \<Rightarrow> real stream \<Rightarrow> error + ('a list \<times> real stream)" where
  "choices population weights random =
     (let n = length population;
          cum_weights = accumulate weights
      in if length cum_weights \<noteq> n then Inl ValueError
         else and_then (py_get cum_weights (- 1)) (\<lambda>last_cum.
           let total = last_cum + Fin 0
           in if ld_le total (Fin 0) then Inl ValueError
              else if \<not> isfinite total then Inl ValueError
              else (let hi = n - 1;
                        k = bisect cum_weights (ld_mul (Fin (shd random)) total) 0 hi
                    in and_then (py_get population (int k)) (\<lambda>x. Inr ([x], stl random)))))"

section \<open>\<^verbatim>\<open>generate_path\<close>\<close>

text \<open>
  \<^verbatim>\<open>
  def generate_path(n, start, pheromones):
      path = np.array([start])
      all_nodes = np.arange(0, n)
      for i in range(1, n):
          next_nodes = np.delete(all_nodes, path)
          if i == (n-1):
              choice = next_nodes[0]
          else:
              next_pheromones = np.delete(pheromones[path[-1]], path)
              choice = random.choices(next_nodes, weights=next_pheromones,
                                      cum_weights=None, k=1)
          path = np.append(path, choice)
      return path
  \<close>
  The loop body is \<open>generate_path_step\<close>, on the pair of the path so far and the
  generator's state; the loop is the recursion over \<open>range(1, n)\<close>. \<^verbatim>\<open>np.append\<close>
  flattens what it appends, so the single node of the first branch and the one-element
  list of the second are both a list here.
\<close>

definition generate_path_step ::
  "int \<Rightarrow> ld list list \<Rightarrow> int \<Rightarrow> int list \<times> real stream \<Rightarrow> error + (int list \<times> real stream)"
where
  "generate_path_step n pheromones i st =
     (case st of (path, random) \<Rightarrow>
        and_then (np_delete (arange n) path) (\<lambda>next_nodes.
        and_then
          (if i = n - 1
           then and_then (py_get next_nodes 0) (\<lambda>choice. Inr ([choice], random))
           else and_then (py_get path (- 1)) (\<lambda>last_node.
                and_then (py_get pheromones last_node) (\<lambda>row.
                and_then (np_delete row path) (\<lambda>next_pheromones.
                  choices next_nodes next_pheromones random))))
          (\<lambda>(choice, random'). Inr (path @ choice, random'))))"

fun generate_path_loop ::
  "int \<Rightarrow> ld list list \<Rightarrow> int list \<Rightarrow> int list \<times> real stream \<Rightarrow> error + (int list \<times> real stream)"
where
  "generate_path_loop n pheromones [] st = Inr st"
| "generate_path_loop n pheromones (i # is) st =
     and_then (generate_path_step n pheromones i st) (generate_path_loop n pheromones is)"

definition generate_path ::
  "int \<Rightarrow> int \<Rightarrow> ld list list \<Rightarrow> real stream \<Rightarrow> error + (int list \<times> real stream)"
where
  "generate_path n start pheromones random =
     generate_path_loop n pheromones [1..n - 1] ([start], random)"

section \<open>\<^verbatim>\<open>get_fitness\<close>\<close>

text \<open>
  \<^verbatim>\<open>
  def get_fitness(path, d, f):
      fitness = 0
      for i in range(len(path)):
          for j in range(len(path)):
              fitness += d[i][j] * f[path[i]][path[j]]
      return fitness
  \<close>
  The two loops are recursions over the index lists \<open>range(len(path))\<close>. The function
  is written for any number type with \<open>+\<close>, \<open>*\<close> and \<open>0\<close>: Python's unbounded integers
  are the instance \<open>int\<close>, and a fixed-width numpy integer, which wraps around, is an
  instance too (\<open>64 word\<close>).
\<close>

fun get_fitness_j ::
  "int list \<Rightarrow> 'a::semiring_0 list list \<Rightarrow> 'a list list \<Rightarrow> nat \<Rightarrow> nat list \<Rightarrow> 'a \<Rightarrow> error + 'a"
where
  "get_fitness_j path d f i [] fitness = Inr fitness"
| "get_fitness_j path d f i (j # js) fitness =
     and_then (py_get d (int i)) (\<lambda>d_i.
     and_then (py_get d_i (int j)) (\<lambda>d_ij.
     and_then (py_get path (int i)) (\<lambda>path_i.
     and_then (py_get f path_i) (\<lambda>f_pi.
     and_then (py_get path (int j)) (\<lambda>path_j.
     and_then (py_get f_pi path_j) (\<lambda>f_pij.
       get_fitness_j path d f i js (fitness + d_ij * f_pij)))))))"

fun get_fitness_i ::
  "int list \<Rightarrow> 'a::semiring_0 list list \<Rightarrow> 'a list list \<Rightarrow> nat list \<Rightarrow> 'a \<Rightarrow> error + 'a"
where
  "get_fitness_i path d f [] fitness = Inr fitness"
| "get_fitness_i path d f (i # is) fitness =
     and_then (get_fitness_j path d f i [0..<length path] fitness)
       (get_fitness_i path d f is)"

definition get_fitness ::
  "int list \<Rightarrow> 'a::semiring_0 list list \<Rightarrow> 'a list list \<Rightarrow> error + 'a"
where
  "get_fitness path d f = get_fitness_i path d f [0..<length path] 0"

section \<open>\<^verbatim>\<open>update_pheromones\<close>\<close>

text \<open>
  \<^verbatim>\<open>
  def update_pheromones(oneover, path, n):
      p = np.zeros((n,n),dtype='longdouble')
      for x in range(len(path) -1):
          p[path[x]][path[x+1]] += np.longdouble(oneover)
      return p
  \<close>
  \<^verbatim>\<open>range(len(path) - 1)\<close> is empty for the empty path as for a path of one node,
  which is what the truncating subtraction on \<open>nat\<close> gives. The function is written
  for any type of values with \<open>+\<close> and \<open>0\<close>; the program uses it on \<open>ld\<close>.
\<close>

fun update_pheromones_loop ::
  "'a::comm_monoid_add \<Rightarrow> int list \<Rightarrow> nat list \<Rightarrow> 'a list list \<Rightarrow> error + 'a list list"
where
  "update_pheromones_loop oneover path [] p = Inr p"
| "update_pheromones_loop oneover path (x # xs) p =
     and_then (py_get path (int x)) (\<lambda>a.
     and_then (py_index (length p) a) (\<lambda>r.
     and_then (py_get path (int x + 1)) (\<lambda>b.
     and_then (py_index (length (p ! r)) b) (\<lambda>c.
       update_pheromones_loop oneover path xs
         (p[r := (p ! r)[c := p ! r ! c + oneover]])))))"

definition update_pheromones ::
  "'a::comm_monoid_add \<Rightarrow> int list \<Rightarrow> int \<Rightarrow> error + 'a list list"
where
  "update_pheromones oneover path n =
     and_then (zeros n) (update_pheromones_loop oneover path [0..<length path - 1])"

section \<open>\<^verbatim>\<open>main\<close>: one run\<close>

text \<open>
  \<^verbatim>\<open>
  def main(m, e):
      best_fitness = float('inf')
      data = read_data('Uni50a.dat')
      n = data[0]
      d = np.array(data[1])
      f = np.array(data[2])
      pheromones = np.random.rand(n, n)
      iterations = int(10000/m)
      start = np.random.randint(0, n)
      average_fitness_list = []
      for x in range(iterations):
          total_fitness = 0
          pheromone_update = np.zeros((n, n), dtype='longdouble')
          for y in range(m):
              path = generate_path(n, start, pheromones)
              fitness = get_fitness(path, d, f)
              if fitness < best_fitness:
                      best_fitness = fitness
              total_fitness += fitness
              oneover = np.longdouble(np.longdouble(1)/np.longdouble(fitness))
              pheromone_update = np.add(pheromone_update, update_pheromones(oneover, path, n))
          pheromones = np.add(pheromones, pheromone_update)
          pheromones *= e
          average_fitness_list.append(total_fitness / m)
      return(average_fitness_list, best_fitness)
  \<close>
  What the program reads from outside is a parameter of the model: the triple
  \<open>(n, d, f)\<close> that \<^verbatim>\<open>read_data\<close> returns for the file (integers, as it parses them
  with \<^verbatim>\<open>int\<close>), and the state of the random generators, \<open>world\<close>: the values
  \<^verbatim>\<open>np.random.rand\<close> will fill its arrays with, the values \<^verbatim>\<open>np.random.randint\<close>
  will return, and the values \<^verbatim>\<open>random.random()\<close> will return.

  The variables of \<^verbatim>\<open>main\<close> that the loops change are the fields of \<open>state\<close>.
  \<open>total_fitness\<close> and \<open>pheromone_update\<close> are unbound in Python until the first iteration
  assigns them; the record holds \<open>0\<close> and \<open>[]\<close> until then, and nothing reads them.
  The field \<open>evaluated\<close> is not a variable of the program: it records, in order, the
  fitness of every ant evaluated so far, so that properties of a run can speak of them;
  no other field depends on it.

  The fitness values are integers (sums of products of the integers of the file); the
  model computes them in \<open>int\<close>. \<^verbatim>\<open>10000/m\<close> and \<^verbatim>\<open>total_fitness / m\<close> are float
  divisions, modelled by the exact quotients.
\<close>

record world =
  np_uniform :: "real stream"
  np_integers :: "int stream"
  py_uniform :: "real stream"

record state =
  pheromones :: "ld list list"
  best_fitness :: ld
  average_fitness_list :: "real list"
  total_fitness :: int
  pheromone_update :: "ld list list"
  random :: "real stream"
  evaluated :: "int list"

text \<open>The body of the loop over the ants (\<^verbatim>\<open>for y in range(m)\<close>).\<close>

definition ant :: "int \<Rightarrow> int \<Rightarrow> int list list \<Rightarrow> int list list \<Rightarrow> state \<Rightarrow> error + state" where
  "ant n start d f s =
     and_then (generate_path n start (pheromones s) (random s)) (\<lambda>(path, random').
     and_then (get_fitness path d f) (\<lambda>fitness.
       let best = (if ld_less (Fin (real_of_int fitness)) (best_fitness s)
                   then Fin (real_of_int fitness) else best_fitness s);
           oneover = ld_div (Fin 1) (Fin (real_of_int fitness))
       in and_then (update_pheromones oneover path n) (\<lambda>p.
            Inr (s\<lparr>best_fitness := best,
                   total_fitness := total_fitness s + fitness,
                   pheromone_update := np_add (pheromone_update s) p,
                   random := random',
                   evaluated := evaluated s @ [fitness]\<rparr>))))"

fun ants :: "nat \<Rightarrow> int \<Rightarrow> int \<Rightarrow> int list list \<Rightarrow> int list list \<Rightarrow> state \<Rightarrow> error + state" where
  "ants 0 n start d f s = Inr s"
| "ants (Suc k) n start d f s = and_then (ant n start d f s) (ants k n start d f)"

text \<open>The body of the loop over the iterations (\<^verbatim>\<open>for x in range(iterations)\<close>).\<close>

definition iteration ::
  "int \<Rightarrow> ld \<Rightarrow> int \<Rightarrow> int \<Rightarrow> int list list \<Rightarrow> int list list \<Rightarrow> state \<Rightarrow> error + state"
where
  "iteration m e n start d f s =
     and_then (zeros n) (\<lambda>z.
     and_then (ants (nat m) n start d f (s\<lparr>total_fitness := 0, pheromone_update := z\<rparr>)) (\<lambda>s'.
       if m = 0 then Inl ZeroDivisionError
       else Inr (s'\<lparr>pheromones :=
                      map (map (\<lambda>x. ld_mul x e)) (np_add (pheromones s') (pheromone_update s')),
                    average_fitness_list :=
                      average_fitness_list s' @ [real_of_int (total_fitness s') / real_of_int m]\<rparr>)))"

fun iterations_loop ::
  "nat \<Rightarrow> int \<Rightarrow> ld \<Rightarrow> int \<Rightarrow> int \<Rightarrow> int list list \<Rightarrow> int list list \<Rightarrow> state \<Rightarrow> error + state"
where
  "iterations_loop 0 m e n start d f s = Inr s"
| "iterations_loop (Suc k) m e n start d f s =
     and_then (iteration m e n start d f s) (iterations_loop k m e n start d f)"

text \<open>
  \<^verbatim>\<open>np.random.rand(n, n)\<close> fills an \<open>n\<close>-by-\<open>n\<close> array row by row and raises
  \<^verbatim>\<open>ValueError\<close> for a negative \<open>n\<close>; \<^verbatim>\<open>np.random.randint(0, n)\<close> raises
  \<^verbatim>\<open>ValueError\<close> unless \<open>0 < n\<close>; \<^verbatim>\<open>int(10000/m)\<close> raises \<^verbatim>\<open>ZeroDivisionError\<close>
  for \<open>m = 0\<close> and rounds the quotient towards zero otherwise.
\<close>

fun rand_rows :: "nat \<Rightarrow> nat \<Rightarrow> real stream \<Rightarrow> real list list \<times> real stream" where
  "rand_rows 0 c src = ([], src)"
| "rand_rows (Suc r) c src =
     (case rand_rows r c (sdrop c src) of (rows, src') \<Rightarrow> (stake c src # rows, src'))"

definition rand :: "int \<Rightarrow> world \<Rightarrow> error + (ld list list \<times> world)" where
  "rand n w =
     (if n < 0 then Inl ValueError
      else (case rand_rows (nat n) (nat n) (np_uniform w) of
              (rows, src') \<Rightarrow> Inr (map (map Fin) rows, w\<lparr>np_uniform := src'\<rparr>)))"

definition randint :: "int \<Rightarrow> world \<Rightarrow> error + (int \<times> world)" where
  "randint n w =
     (if n \<le> 0 then Inl ValueError
      else Inr (shd (np_integers w), w\<lparr>np_integers := stl (np_integers w)\<rparr>))"

definition iterations_of :: "int \<Rightarrow> error + int" where
  "iterations_of m =
     (if m = 0 then Inl ZeroDivisionError
      else if 0 < m then Inr (10000 div m)
      else Inr (- (10000 div (- m))))"

definition main_run ::
  "int \<Rightarrow> ld \<Rightarrow> int \<times> int list list \<times> int list list \<Rightarrow> world \<Rightarrow> error + (state \<times> world)"
where
  "main_run m e data w =
     (case data of (n, d, f) \<Rightarrow>
        and_then (rand n w) (\<lambda>(pheromones0, w1).
        and_then (iterations_of m) (\<lambda>iterations.
        and_then (randint n w1) (\<lambda>(start, w2).
        and_then
          (iterations_loop (nat iterations) m e n start d f
             \<lparr>pheromones = pheromones0, best_fitness = PInf, average_fitness_list = [],
              total_fitness = 0, pheromone_update = [], random = py_uniform w2,
              evaluated = []\<rparr>)
          (\<lambda>s. Inr (s, w2\<lparr>py_uniform := random s\<rparr>))))))"

definition main ::
  "int \<Rightarrow> ld \<Rightarrow> int \<times> int list list \<times> int list list \<Rightarrow> world
     \<Rightarrow> error + ((real list \<times> ld) \<times> world)"
where
  "main m e data w =
     and_then (main_run m e data w) (\<lambda>(s, w').
       Inr ((average_fitness_list s, best_fitness s), w'))"

section \<open>\<^verbatim>\<open>experiments\<close>\<close>

text \<open>
  \<^verbatim>\<open>
  def experiments(filename, m, e):
      biglist = []
      bestlist = []
      for x in range(5):
              result = main(m, e)
              bestlist.append(result[1])
              biglist.append(result[0])
      numlist = np.arange(len(biglist[0]))
      with open(filename, 'a') as csvfile:
          writer = csv.writer(csvfile)
          writer.writerow(numlist)
          for i in biglist:
              writer.writerow(i)
      print("m: %s, e: %s\nBest: %s" % (m, e, bestlist), flush = True)
      print(np.mean(bestlist))
  \<close>
  The model returns what the function writes: the header row and the rows of the file,
  and the list of the best values it prints (their mean, printed last, is left out).
  Every run reads the same data file.
\<close>

record experiment_output =
  csv_header :: "nat list"
  csv_rows :: "real list list"
  printed_best :: "ld list"

fun experiments_loop ::
  "nat \<Rightarrow> int \<Rightarrow> ld \<Rightarrow> int \<times> int list list \<times> int list list
     \<Rightarrow> real list list \<times> ld list \<times> world \<Rightarrow> error + (real list list \<times> ld list \<times> world)"
where
  "experiments_loop 0 m e data acc = Inr acc"
| "experiments_loop (Suc k) m e data acc =
     (case acc of (biglist, bestlist, w) \<Rightarrow>
        and_then (main m e data w) (\<lambda>(result, w').
          experiments_loop k m e data (biglist @ [fst result], bestlist @ [snd result], w')))"

definition experiments ::
  "int \<Rightarrow> ld \<Rightarrow> int \<times> int list list \<times> int list list \<Rightarrow> world \<Rightarrow> error + (experiment_output \<times> world)"
where
  "experiments m e data w =
     and_then (experiments_loop 5 m e data ([], [], w)) (\<lambda>(biglist, bestlist, w').
     and_then (py_get biglist 0) (\<lambda>first.
       Inr (\<lparr>csv_header = [0..<length first], csv_rows = biglist, printed_best = bestlist\<rparr>,
            w')))"

section \<open>Predicates of the statements\<close>

text \<open>A weight is positive when it is a finite float above zero.\<close>

definition positive :: "ld \<Rightarrow> bool" where
  "positive w \<longleftrightarrow> (\<exists>r>0. w = Fin r)"

text \<open>
  A path under construction: its entries are distinct nodes of \<open>[0, n)\<close>.
\<close>

definition valid_path :: "int \<Rightarrow> int list \<Rightarrow> bool" where
  "valid_path n path \<longleftrightarrow> distinct path \<and> list_all (\<lambda>v. 0 \<le> v \<and> v < n) path"

text \<open>
  A matrix of \<open>n\<close> rows of \<open>n\<close> entries; a finite float that is not negative; and the
  least of the fitness values evaluated so far, \<open>+inf\<close> when there is none.
\<close>

definition square :: "nat \<Rightarrow> 'a list list \<Rightarrow> bool" where
  "square n M \<longleftrightarrow> length M = n \<and> list_all (\<lambda>row. length row = n) M"

definition nonneg :: "ld \<Rightarrow> bool" where
  "nonneg x \<longleftrightarrow> (\<exists>r\<ge>0. x = Fin r)"

definition best_of :: "int list \<Rightarrow> ld" where
  "best_of fs = (if fs = [] then PInf else Fin (real_of_int (Min (set fs))))"

definition nonneg_matrix :: "ld list list \<Rightarrow> bool" where
  "nonneg_matrix M \<longleftrightarrow> list_all (list_all nonneg) M"

section \<open>Basic facts\<close>

lemma and_then_Inr [simp]: "and_then (Inr x) k = k x"
  by (simp add: and_then_def)

lemma and_then_Inl [simp]: "and_then (Inl err) k = Inl err"
  by (simp add: and_then_def)

lemma py_index_nat: "k < N \<Longrightarrow> py_index N (int k) = Inr k"
  by (simp add: py_index_def)

lemma py_get_nat: "k < length xs \<Longrightarrow> py_get xs (int k) = Inr (xs ! k)"
  by (simp add: py_get_def py_index_nat)

lemma py_get_in_range:
  "0 \<le> v \<Longrightarrow> v < int (length xs) \<Longrightarrow> py_get xs v = Inr (xs ! nat v)"
  by (simp add: py_get_def py_index_def)

lemma and_then_eq_Inr: "and_then r k = Inr y \<longleftrightarrow> (\<exists>x. r = Inr x \<and> k x = Inr y)"
  by (cases r) simp_all

lemma py_get_mem: "py_get xs i = Inr x \<Longrightarrow> x \<in> set xs"
  by (auto simp: py_get_def py_index_def split: if_splits)

lemma py_get_last: "xs \<noteq> [] \<Longrightarrow> py_get xs (- 1) = Inr (last xs)"
  by (cases xs rule: rev_cases) (auto simp: py_get_def py_index_def nth_append)

section \<open>The fitness is the objective of the quadratic assignment problem\<close>

lemma get_fitness_j_sum:
  assumes i: "i < length path" "i < length d" "nat (path ! i) < length f" "0 \<le> path ! i"
    and js: "\<forall>j \<in> set js. j < length path \<and> j < length (d ! i)
               \<and> 0 \<le> path ! j \<and> nat (path ! j) < length (f ! nat (path ! i))"
  shows "get_fitness_j path d f i js acc =
           Inr (acc + (\<Sum>j\<leftarrow>js. d ! i ! j * f ! nat (path ! i) ! nat (path ! j)))"
  using js
proof (induction js arbitrary: acc)
  case Nil
  show ?case by simp
next
  case (Cons j js)
  have j: "j < length path" "j < length (d ! i)" "0 \<le> path ! j"
    "nat (path ! j) < length (f ! nat (path ! i))"
    using Cons.prems by simp_all
  have rest: "\<forall>j \<in> set js. j < length path \<and> j < length (d ! i)
               \<and> 0 \<le> path ! j \<and> nat (path ! j) < length (f ! nat (path ! i))"
    using Cons.prems by simp
  have step: "get_fitness_j path d f i (j # js) acc =
      get_fitness_j path d f i js (acc + d ! i ! j * f ! nat (path ! i) ! nat (path ! j))"
    using i j by (simp add: py_get_nat py_get_in_range)
  show ?case
    unfolding step Cons.IH [OF rest] by (simp add: add.assoc)
qed

lemma get_fitness_i_sum:
  assumes "\<forall>i \<in> set is. i < length path \<and> i < length d \<and> 0 \<le> path ! i
              \<and> nat (path ! i) < length f
              \<and> (\<forall>j < length path. j < length (d ! i) \<and> 0 \<le> path ! j
                     \<and> nat (path ! j) < length (f ! nat (path ! i)))"
  shows "get_fitness_i path d f is acc =
           Inr (acc + (\<Sum>i\<leftarrow>is. \<Sum>j\<leftarrow>[0..<length path].
                          d ! i ! j * f ! nat (path ! i) ! nat (path ! j)))"
  using assms
proof (induction "is" arbitrary: acc)
  case Nil
  show ?case by simp
next
  case (Cons i "is")
  have inner: "get_fitness_j path d f i [0..<length path] acc =
      Inr (acc + (\<Sum>j\<leftarrow>[0..<length path]. d ! i ! j * f ! nat (path ! i) ! nat (path ! j)))"
    using Cons.prems by (intro get_fitness_j_sum) simp_all
  have rest: "\<forall>i \<in> set is. i < length path \<and> i < length d \<and> 0 \<le> path ! i
              \<and> nat (path ! i) < length f
              \<and> (\<forall>j < length path. j < length (d ! i) \<and> 0 \<le> path ! j
                     \<and> nat (path ! j) < length (f ! nat (path ! i)))"
    using Cons.prems by simp
  show ?case
    by (simp add: inner Cons.IH [OF rest] add.assoc)
qed

text \<open>
  C2. For a path of length \<open>N\<close> whose entries are node indices in \<open>[0, N)\<close> (every
  permutation of \<open>[0, N)\<close> is one) and \<open>N\<close>-by-\<open>N\<close> matrices \<open>d\<close> and \<open>f\<close>,
  \<^verbatim>\<open>get_fitness\<close> returns the sum over all ordered pairs \<open>(i, j)\<close> of
  \<open>d[i][j] * f[path[i]][path[j]]\<close>: \<open>d\<close> is indexed by the positions, \<open>f\<close> by the
  values the path stores there.
\<close>

theorem get_fitness_is_qap_sum:
  fixes d f :: "'a::semiring_0 list list"
  assumes "length path = N"
    and "\<forall>v \<in> set path. 0 \<le> v \<and> v < int N"
    and "length d = N" and "\<forall>row \<in> set d. length row = N"
    and "length f = N" and "\<forall>row \<in> set f. length row = N"
  shows "get_fitness path d f =
           Inr (\<Sum>i<N. \<Sum>j<N. d ! i ! j * f ! nat (path ! i) ! nat (path ! j))"
proof -
  have entry: "0 \<le> path ! k \<and> nat (path ! k) < N" if "k < N" for k
    using assms(1,2) that by (metis nat_less_iff nth_mem)
  have rows: "length (d ! k) = N" "length (f ! k) = N" if "k < N" for k
    using assms(3-6) that by simp_all
  have "get_fitness path d f =
      Inr (0 + (\<Sum>i\<leftarrow>[0..<length path]. \<Sum>j\<leftarrow>[0..<length path].
                  d ! i ! j * f ! nat (path ! i) ! nat (path ! j)))"
    unfolding get_fitness_def
    using assms(1,3,5) entry rows by (intro get_fitness_i_sum) simp
  then show ?thesis
    by (simp add: assms(1) interv_sum_list_conv_sum_set_nat atLeast0LessThan)
qed

theorem get_fitness_is_qap_sum_witness:
  "get_fitness [1, 0] [[0, 2], [3, 0]] [[0, 5], [7, 0 :: int]] = Inr 29"
proof -
  have "get_fitness [1, 0] [[0, 2], [3, 0]] [[0, 5], [7, 0 :: int]] =
      Inr (\<Sum>i<2. \<Sum>j<2. [[0, 2], [3, 0]] ! i ! j
             * [[0, 5], [7, 0 :: int]] ! nat ([1, 0] ! i) ! nat ([1, 0] ! j))"
    using get_fitness_is_qap_sum [of "[1, 0]" 2 "[[0, 2], [3, 0]]" "[[0, 5], [7, 0 :: int]]"]
    by simp
  then show ?thesis
    by (simp add: lessThan_Suc numeral_2_eq_2)
qed

section \<open>The deposit of one path\<close>

lemma sum_list_bump:
  fixes xs :: "'a::comm_monoid_add list"
  shows "k < length xs \<Longrightarrow> sum_list (xs[k := xs ! k + v]) = sum_list xs + v"
proof (induction xs arbitrary: k)
  case Nil
  then show ?case by simp
next
  case (Cons x xs)
  show ?case
  proof (cases k)
    case 0
    then show ?thesis by (simp add: ac_simps)
  next
    case (Suc k')
    with Cons show ?thesis by (simp add: ac_simps)
  qed
qed

lemma total_bump:
  fixes p :: "'a::comm_monoid_add list list"
  assumes "r < length p" "c < length (p ! r)"
  shows "(\<Sum>row\<leftarrow>p[r := (p ! r)[c := p ! r ! c + v]]. sum_list row) =
         (\<Sum>row\<leftarrow>p. sum_list row) + v"
proof -
  have "map sum_list (p[r := (p ! r)[c := p ! r ! c + v]]) =
      (map sum_list p)[r := (map sum_list p) ! r + v]"
    using assms by (simp add: map_update sum_list_bump)
  then show ?thesis
    using assms(1) sum_list_bump [of r "map sum_list p" v] by simp
qed

lemma square_bump:
  assumes "length p = n" "\<forall>row \<in> set p. length row = n"
  shows "length (p[r := (p ! r)[c := y]]) = n
       \<and> (\<forall>row \<in> set (p[r := (p ! r)[c := y]]). length row = n)"
  using assms
  by (cases "r < length p") (auto simp: all_set_conv_all_nth nth_list_update)

lemma update_pheromones_loop_spec:
  fixes oneover :: "'a::semiring_1"
  assumes "length p = n" "\<forall>row \<in> set p. length row = n"
    and "\<forall>x \<in> set xs. Suc x < length path"
    and "\<forall>v \<in> set path. 0 \<le> v \<and> v < int n"
  shows "\<exists>p'. update_pheromones_loop oneover path xs p = Inr p'
           \<and> length p' = n \<and> (\<forall>row \<in> set p'. length row = n)
           \<and> (\<forall>a<n. \<forall>b<n. p' ! a ! b = p ! a ! b
                 + of_nat (length (filter (\<lambda>x. path ! x = int a \<and> path ! Suc x = int b) xs))
                   * oneover)
           \<and> (\<Sum>row\<leftarrow>p'. sum_list row) =
               (\<Sum>row\<leftarrow>p. sum_list row) + of_nat (length xs) * oneover"
  using assms(1-3)
proof (induction xs arbitrary: p)
  case Nil
  then show ?case by simp
next
  case (Cons x xs)
  let ?a = "path ! x" and ?b = "path ! Suc x"
  let ?r = "nat ?a" and ?c = "nat ?b"
  let ?q = "p[?r := (p ! ?r)[?c := p ! ?r ! ?c + oneover]]"
  have x: "Suc x < length path" using Cons.prems by simp
  have a: "0 \<le> ?a" "?a < int n" and b: "0 \<le> ?b" "?b < int n"
    using x assms(4) by (simp_all add: nth_mem)
  have len: "length p = n" and row: "length (p ! ?r) = n"
    using Cons.prems(1,2) a by simp_all
  have nxt: "py_get path (int x + 1) = Inr ?b"
    using x py_get_nat [of "Suc x" path] by (simp add: add.commute)
  have step: "update_pheromones_loop oneover path (x # xs) p =
      update_pheromones_loop oneover path xs ?q"
    using x a b len row by (simp add: py_get_nat nxt py_index_def)
  have sq: "length ?q = n" "\<forall>row \<in> set ?q. length row = n"
    using square_bump [OF Cons.prems(1,2)] by blast+
  have rest: "\<forall>x \<in> set xs. Suc x < length path" using Cons.prems by simp
  from Cons.IH [OF sq rest] obtain p' where p':
    "update_pheromones_loop oneover path xs ?q = Inr p'"
    "length p' = n" "\<forall>row \<in> set p'. length row = n"
    "\<forall>a<n. \<forall>b<n. p' ! a ! b = ?q ! a ! b
        + of_nat (length (filter (\<lambda>x. path ! x = int a \<and> path ! Suc x = int b) xs)) * oneover"
    "(\<Sum>row\<leftarrow>p'. sum_list row) = (\<Sum>row\<leftarrow>?q. sum_list row) + of_nat (length xs) * oneover"
    by blast
  have cell: "p' ! i ! j = p ! i ! j
      + of_nat (length (filter (\<lambda>x. path ! x = int i \<and> path ! Suc x = int j) (x # xs)))
        * oneover"
    if "i < n" "j < n" for i j
  proof -
    have "?q ! i ! j = (if ?a = int i \<and> ?b = int j then p ! i ! j + oneover else p ! i ! j)"
      using that a b len row by (auto simp: nth_list_update)
    then show ?thesis
      using p'(4) that by (simp add: algebra_simps)
  qed
  have total: "(\<Sum>row\<leftarrow>p'. sum_list row) =
      (\<Sum>row\<leftarrow>p. sum_list row) + of_nat (length (x # xs)) * oneover"
  proof -
    have "(\<Sum>row\<leftarrow>?q. sum_list row) = (\<Sum>row\<leftarrow>p. sum_list row) + oneover"
      using a b len row by (intro total_bump) simp_all
    then show ?thesis
      by (simp add: p'(5) algebra_simps)
  qed
  show ?case
    unfolding step using p'(1-3) cell total by blast
qed

text \<open>
  C4. For a path whose entries are node indices below \<open>n\<close>, \<^verbatim>\<open>update_pheromones\<close>
  returns an \<open>n\<close>-by-\<open>n\<close> matrix in which the cell \<open>[a][b]\<close> holds \<open>oneover\<close> once for
  every position \<open>x\<close> with \<open>(path[x], path[x+1]) = (a, b)\<close>, and zero when there is
  none: an edge that occurs several times is counted as often. The entries of the
  matrix sum to \<open>oneover\<close> times the number of edges, which is \<open>n - 1\<close> for a path of
  \<open>n \<ge> 1\<close> nodes (and zero for the empty path, which has no edge). The values are
  those of any semiring: the statement is about exact arithmetic.
\<close>

theorem update_pheromones_deposits:
  fixes oneover :: "'a::semiring_1"
  assumes "0 \<le> n" and "\<forall>v \<in> set path. 0 \<le> v \<and> v < n"
  shows "\<exists>p. update_pheromones oneover path n = Inr p
           \<and> length p = nat n \<and> (\<forall>row \<in> set p. length row = nat n)
           \<and> (\<forall>a < nat n. \<forall>b < nat n. p ! a ! b =
                 of_nat (card {x. Suc x < length path \<and> path ! x = int a \<and> path ! Suc x = int b})
                 * oneover)
           \<and> (\<Sum>row\<leftarrow>p. sum_list row) = of_nat (length path - 1) * oneover"
proof -
  let ?z = "replicate (nat n) (replicate (nat n) (0::'a))"
  let ?xs = "[0..<length path - 1]"
  have entries: "\<forall>v \<in> set path. 0 \<le> v \<and> v < int (nat n)"
    using assms by simp
  have "\<exists>p'. update_pheromones_loop oneover path ?xs ?z = Inr p'
           \<and> length p' = nat n \<and> (\<forall>row \<in> set p'. length row = nat n)
           \<and> (\<forall>a<nat n. \<forall>b<nat n. p' ! a ! b = ?z ! a ! b
                 + of_nat (length (filter (\<lambda>x. path ! x = int a \<and> path ! Suc x = int b) ?xs))
                   * oneover)
           \<and> (\<Sum>row\<leftarrow>p'. sum_list row) =
               (\<Sum>row\<leftarrow>?z. sum_list row) + of_nat (length ?xs) * oneover"
    by (rule update_pheromones_loop_spec [OF _ _ _ entries]) auto
  then obtain p where p: "update_pheromones_loop oneover path ?xs ?z = Inr p"
    "length p = nat n" "\<forall>row \<in> set p. length row = nat n"
    "\<forall>a<nat n. \<forall>b<nat n. p ! a ! b = ?z ! a ! b
        + of_nat (length (filter (\<lambda>x. path ! x = int a \<and> path ! Suc x = int b) ?xs)) * oneover"
    "(\<Sum>row\<leftarrow>p. sum_list row) = (\<Sum>row\<leftarrow>?z. sum_list row) + of_nat (length ?xs) * oneover"
    by blast
  have count: "length (filter (\<lambda>x. path ! x = int a \<and> path ! Suc x = int b) ?xs) =
      card {x. Suc x < length path \<and> path ! x = int a \<and> path ! Suc x = int b}" for a b
  proof -
    have "{x. path ! x = int a \<and> path ! Suc x = int b} \<inter> set ?xs =
        {x. Suc x < length path \<and> path ! x = int a \<and> path ! Suc x = int b}"
      by auto
    then show ?thesis
      by (simp add: distinct_length_filter)
  qed
  have zero: "(\<Sum>row\<leftarrow>?z. sum_list row) = 0"
    by (simp add: sum_list_replicate)
  have run: "update_pheromones oneover path n = Inr p"
    using assms(1) p(1) by (simp add: update_pheromones_def zeros_def)
  have cells: "\<forall>a < nat n. \<forall>b < nat n. p ! a ! b =
      of_nat (card {x. Suc x < length path \<and> path ! x = int a \<and> path ! Suc x = int b}) * oneover"
    using p(4) unfolding count by simp
  have total: "(\<Sum>row\<leftarrow>p. sum_list row) = of_nat (length path - 1) * oneover"
    using p(5) unfolding zero by simp
  show ?thesis
    using run p(2,3) cells total by blast
qed

theorem update_pheromones_deposits_witness:
  "update_pheromones (3::int) [0, 1, 0, 1] 2 = Inr [[0, 6], [3, 0]]
   \<and> (\<Sum>row\<leftarrow>[[0, 6], [3, 0::int]]. sum_list row) = of_nat (length [0, 1, 0, 1::int] - 1) * 3"
proof -
  have run: "update_pheromones (3::int) [0, 1, 0, 1] 2 = Inr [[0, 6], [3, 0]]"
    by (simp add: update_pheromones_def zeros_def py_get_def py_index_def
        upt_rec numeral_2_eq_2)
  obtain p where "update_pheromones (3::int) [0, 1, 0, 1] 2 = Inr p"
    "(\<Sum>row\<leftarrow>p. sum_list row) = of_nat (length [0, 1, 0, 1::int] - 1) * (3::int)"
    using update_pheromones_deposits [of 2 "[0, 1, 0, 1]" "3::int"] by auto
  with run show ?thesis by simp
qed

section \<open>Facts about the library functions\<close>

lemma normalize_indices_in_range:
  "\<forall>v \<in> set obj. 0 \<le> v \<and> v < int N \<Longrightarrow> normalize_indices N obj = Inr (map nat obj)"
  by (induction obj) (simp_all add: py_index_def)

lemma np_delete_in_range:
  assumes "\<forall>v \<in> set obj. 0 \<le> v \<and> v < int (length arr)"
  shows "np_delete arr obj =
           Inr (map (\<lambda>k. arr ! k) (filter (\<lambda>k. int k \<notin> set obj) [0..<length arr]))"
proof -
  have "(k \<notin> set (map nat obj)) = (int k \<notin> set obj)" for k
    using assms by (force simp: image_iff)
  then show ?thesis
    by (simp add: np_delete_def normalize_indices_in_range [OF assms])
qed

lemma np_delete_arange:
  assumes "\<forall>v \<in> set path. 0 \<le> v \<and> v < n"
  shows "np_delete (arange n) path =
           Inr (map int (filter (\<lambda>k. int k \<notin> set path) [0..<nat n]))"
proof -
  have "\<forall>v \<in> set path. 0 \<le> v \<and> v < int (length (arange n))"
    using assms by (auto simp: arange_def)
  from np_delete_in_range [OF this] show ?thesis
    by (simp add: arange_def cong: map_cong)
qed

lemma bisect_bounds: "lo \<le> hi \<Longrightarrow> lo \<le> bisect a x lo hi \<and> bisect a x lo hi \<le> hi"
proof (induction a x lo hi rule: bisect.induct)
  case (1 a x lo hi)
  show ?case
  proof (cases "lo < hi")
    case False
    with "1.prems" show ?thesis by (simp add: bisect.simps)
  next
    case True
    let ?mid = "(lo + hi) div 2"
    have mid: "lo \<le> ?mid" "?mid < hi" using True by simp_all
    show ?thesis
    proof (cases "ld_less x (a ! ?mid)")
      case True
      have "lo \<le> bisect a x lo ?mid \<and> bisect a x lo ?mid \<le> ?mid"
        using "1.IH"(1) [OF \<open>lo < hi\<close> refl True] mid by simp
      with True \<open>lo < hi\<close> mid show ?thesis
        by (subst (1 2) bisect.simps) (simp add: Let_def)
    next
      case False
      have "?mid + 1 \<le> bisect a x (?mid + 1) hi \<and> bisect a x (?mid + 1) hi \<le> hi"
        using "1.IH"(2) [OF \<open>lo < hi\<close> refl False] mid by simp
      with False \<open>lo < hi\<close> mid show ?thesis
        by (subst (1 2) bisect.simps) (simp add: Let_def)
    qed
  qed
qed

lemma accumulate_from_positive:
  "positive acc \<Longrightarrow> \<forall>w \<in> set ws. positive w \<Longrightarrow>
     length (accumulate_from acc ws) = length ws
     \<and> (\<forall>c \<in> set (accumulate_from acc ws). positive c)"
proof (induction ws arbitrary: acc)
  case Nil
  show ?case by simp
next
  case (Cons w ws)
  have "positive (acc + w)"
    using Cons.prems by (auto simp: positive_def intro: add_pos_pos)
  with Cons show ?case by simp
qed

lemma accumulate_positive:
  assumes "\<forall>w \<in> set ws. positive w"
  shows "length (accumulate ws) = length ws \<and> (\<forall>c \<in> set (accumulate ws). positive c)"
proof (cases ws)
  case Nil
  then show ?thesis by simp
next
  case (Cons w ws')
  with assms accumulate_from_positive [of w ws'] show ?thesis by simp
qed

lemma length_accumulate_from: "length (accumulate_from acc ws) = length ws"
  by (induction ws arbitrary: acc) simp_all

lemma length_accumulate: "length (accumulate ws) = length ws"
  by (cases ws) (simp_all add: length_accumulate_from)

lemma choices_positive:
  assumes "length weights = length population" "population \<noteq> []"
    and "\<forall>w \<in> set weights. positive w"
  shows "\<exists>x \<in> set population. choices population weights rs = Inr ([x], stl rs)"
proof -
  let ?cum = "accumulate weights"
  have len: "length ?cum = length population"
    using assms(1) by (simp add: length_accumulate)
  then have ne: "?cum \<noteq> []" using assms(2) by auto
  have "positive (last ?cum)"
    using accumulate_positive [OF assms(3)] ne last_in_set by blast
  then obtain r where r: "0 < r" "last ?cum = Fin r"
    by (auto simp: positive_def)
  let ?k = "bisect ?cum (ld_mul (Fin (shd rs)) (Fin r)) 0 (length population - 1)"
  have "?k \<le> length population - 1"
    using bisect_bounds [of 0 "length population - 1"] by simp
  then have k: "?k < length population"
    using assms(2) by (cases population) simp_all
  have "choices population weights rs = Inr ([population ! ?k], stl rs)"
    using len r k by (simp add: choices_def Let_def py_get_last [OF ne] py_get_nat)
  with k show ?thesis by (metis nth_mem)
qed

lemma choices_Inr:
  assumes "choices population weights rs = Inr (c, rs')"
  shows "\<exists>x \<in> set population. c = [x] \<and> rs' = stl rs"
  using assms
  by (auto simp: choices_def Let_def and_then_eq_Inr split: if_splits dest: py_get_mem)

lemma bisect_done: "\<not> lo < hi \<Longrightarrow> bisect a x lo hi = lo"
  by (simp add: bisect.simps)

lemma bisect_left:
  "lo < hi \<Longrightarrow> ld_less x (a ! ((lo + hi) div 2)) \<Longrightarrow>
     bisect a x lo hi = bisect a x lo ((lo + hi) div 2)"
  by (subst bisect.simps) (simp add: Let_def)

lemma bisect_right:
  "lo < hi \<Longrightarrow> \<not> ld_less x (a ! ((lo + hi) div 2)) \<Longrightarrow>
     bisect a x lo hi = bisect a x ((lo + hi) div 2 + 1) hi"
  by (subst bisect.simps) (simp add: Let_def)

section \<open>The path of an ant\<close>

lemma candidates_nonempty:
  assumes "valid_path n path" "length path < nat n"
  shows "filter (\<lambda>k. int k \<notin> set path) [0..<nat n] \<noteq> []"
proof
  assume "filter (\<lambda>k. int k \<notin> set path) [0..<nat n] = []"
  then have "int ` {0..<nat n} \<subseteq> set path"
    by (auto simp: filter_empty_conv)
  then have "card (int ` {0..<nat n}) \<le> card (set path)"
    by (intro card_mono) simp_all
  moreover have "card (int ` {0..<nat n}) = nat n"
    by (simp add: card_image)
  moreover have "card (set path) \<le> length path"
    by (rule card_length)
  ultimately show False using assms(2) by simp
qed

lemma generate_path_step_Inr:
  assumes "list_all (\<lambda>v. 0 \<le> v \<and> v < n) path"
    and "generate_path_step n ph i (path, rs) = Inr (path', rs')"
  shows "\<exists>c. path' = path @ [c] \<and> 0 \<le> c \<and> c < n \<and> c \<notin> set path"
proof -
  let ?cand = "filter (\<lambda>k. int k \<notin> set path) [0..<nat n]"
  have del: "np_delete (arange n) path = Inr (map int ?cand)"
    using assms(1) by (intro np_delete_arange) (simp add: list_all_iff)
  have mem: "0 \<le> c \<and> c < n \<and> c \<notin> set path" if "c \<in> set (map int ?cand)" for c
    using that by auto
  from assms(2) obtain choice where
    choice: "(if i = n - 1
           then and_then (py_get (map int ?cand) 0) (\<lambda>choice. Inr ([choice], rs))
           else and_then (py_get path (- 1)) (\<lambda>last_node.
                and_then (py_get ph last_node) (\<lambda>row.
                and_then (np_delete row path) (\<lambda>next_pheromones.
                  choices (map int ?cand) next_pheromones rs)))) = Inr (choice, rs')"
    and path': "path' = path @ choice"
    by (auto simp: generate_path_step_def del and_then_eq_Inr)
  have "\<exists>c \<in> set (map int ?cand). choice = [c]"
  proof (cases "i = n - 1")
    case True
    with choice obtain x where x: "py_get (map int ?cand) 0 = Inr x" "choice = [x]"
      by (auto simp: and_then_eq_Inr)
    from py_get_mem [OF x(1)] x(2) show ?thesis by blast
  next
    case False
    with choice obtain ws where "choices (map int ?cand) ws rs = Inr (choice, rs')"
      by (auto simp: and_then_eq_Inr)
    from choices_Inr [OF this] show ?thesis by blast
  qed
  with mem path' show ?thesis by blast
qed

lemma generate_path_step_positive:
  assumes "valid_path n path" "path \<noteq> []" "length path < nat n"
    and "length ph = nat n" "\<forall>row \<in> set ph. length row = nat n"
    and "\<forall>a < nat n. \<forall>b < nat n. a \<noteq> b \<longrightarrow> positive (ph ! a ! b)"
  shows "\<exists>c rs'. generate_path_step n ph i (path, rs) = Inr (path @ [c], rs')"
proof -
  let ?cand = "filter (\<lambda>k. int k \<notin> set path) [0..<nat n]"
  have range: "\<forall>v \<in> set path. 0 \<le> v \<and> v < n"
    using assms(1) by (simp add: valid_path_def list_all_iff)
  have del: "np_delete (arange n) path = Inr (map int ?cand)"
    using range by (rule np_delete_arange)
  have ne: "?cand \<noteq> []"
    using assms(1,3) by (rule candidates_nonempty)
  show ?thesis
  proof (cases "i = n - 1")
    case True
    have "py_get (map int ?cand) 0 = Inr (map int ?cand ! 0)"
      using ne py_get_nat [of 0 "map int ?cand"] by simp
    with True show ?thesis
      by (simp add: generate_path_step_def del)
  next
    case False
    let ?l = "nat (last path)"
    have last: "0 \<le> last path" "last path < n"
      using range assms(2) last_in_set by blast+
    have row: "py_get ph (last path) = Inr (ph ! ?l)"
      using last assms(4) by (intro py_get_in_range) simp_all
    have len: "length (ph ! ?l) = nat n"
      using assms(4,5) last by simp
    have del_row: "np_delete (ph ! ?l) path = Inr (map (\<lambda>k. ph ! ?l ! k) ?cand)"
    proof -
      have "\<forall>v \<in> set path. 0 \<le> v \<and> v < int (length (ph ! ?l))"
        using range len by auto
      from np_delete_in_range [OF this] show ?thesis
        by (simp only: len)
    qed
    have pos: "\<forall>w \<in> set (map (\<lambda>k. ph ! ?l ! k) ?cand). positive w"
    proof
      fix w assume "w \<in> set (map (\<lambda>k. ph ! ?l ! k) ?cand)"
      then obtain k where k: "k < nat n" "int k \<notin> set path" "w = ph ! ?l ! k"
        by auto
      have "int k \<noteq> last path" using k(2) assms(2) last_in_set by metis
      then have "?l \<noteq> k" using last by auto
      with assms(6) k(1,3) last show "positive w" by simp
    qed
    obtain x where "choices (map int ?cand) (map (\<lambda>k. ph ! ?l ! k) ?cand) rs
        = Inr ([x], stl rs)"
      using choices_positive [of "map (\<lambda>k. ph ! ?l ! k) ?cand" "map int ?cand" rs]
        ne pos by auto
    with False show ?thesis
      by (simp add: generate_path_step_def del py_get_last [OF assms(2)] row del_row)
  qed
qed

lemma valid_path_snoc:
  "valid_path n path \<Longrightarrow> 0 \<le> c \<Longrightarrow> c < n \<Longrightarrow> c \<notin> set path \<Longrightarrow> valid_path n (path @ [c])"
  by (simp add: valid_path_def)

lemma generate_path_loop_Inr:
  assumes "valid_path n path"
    and "generate_path_loop n ph is (path, rs) = Inr (path', rs')"
  shows "valid_path n path' \<and> length path' = length path + length is
           \<and> take (length path) path' = path"
  using assms
proof (induction "is" arbitrary: path rs)
  case Nil
  then show ?case by simp
next
  case (Cons i "is")
  from Cons.prems(2) obtain path1 rs1 where
    step: "generate_path_step n ph i (path, rs) = Inr (path1, rs1)"
    and rest: "generate_path_loop n ph is (path1, rs1) = Inr (path', rs')"
    by (auto simp: and_then_eq_Inr)
  have "list_all (\<lambda>v. 0 \<le> v \<and> v < n) path"
    using Cons.prems(1) by (simp add: valid_path_def)
  from generate_path_step_Inr [OF this step] obtain c where
    c: "path1 = path @ [c]" "0 \<le> c" "c < n" "c \<notin> set path" by blast
  have "valid_path n path1"
    using Cons.prems(1) c by (simp add: valid_path_snoc)
  from Cons.IH [OF this rest] c(1) show ?case
    by (auto simp: take_Suc_conv_app_nth dest: arg_cong [where f = "take (length path)"])
qed

lemma generate_path_loop_positive:
  assumes "valid_path n path" "path \<noteq> []" "length path + length is \<le> nat n"
    and "length ph = nat n" "\<forall>row \<in> set ph. length row = nat n"
    and "\<forall>a < nat n. \<forall>b < nat n. a \<noteq> b \<longrightarrow> positive (ph ! a ! b)"
  shows "\<exists>path' rs'. generate_path_loop n ph is (path, rs) = Inr (path', rs')"
  using assms(1-3)
proof (induction "is" arbitrary: path rs)
  case Nil
  then show ?case by simp
next
  case (Cons i "is")
  have "length path < nat n" using Cons.prems(3) by simp
  from generate_path_step_positive [OF Cons.prems(1,2) this assms(4-6)] obtain c rs1 where
    step: "generate_path_step n ph i (path, rs) = Inr (path @ [c], rs1)" by blast
  have "list_all (\<lambda>v. 0 \<le> v \<and> v < n) path"
    using Cons.prems(1) by (simp add: valid_path_def)
  from generate_path_step_Inr [OF this step] have "0 \<le> c" "c < n" "c \<notin> set path" by auto
  then have "valid_path n (path @ [c])"
    using Cons.prems(1) by (simp add: valid_path_snoc)
  moreover have "path @ [c] \<noteq> []" by simp
  moreover have "length (path @ [c]) + length is \<le> nat n" using Cons.prems(3) by simp
  ultimately obtain path' rs' where
    "generate_path_loop n ph is (path @ [c], rs1) = Inr (path', rs')"
    using Cons.IH by blast
  with step show ?case by simp
qed

lemma valid_path_full:
  assumes "valid_path n path" "length path = nat n"
  shows "set path = {0..<n}"
proof -
  have sub: "set path \<subseteq> {0..<n}"
    using assms(1) by (auto simp: valid_path_def list_all_iff)
  have "card (set path) = nat n"
    using assms by (simp add: valid_path_def distinct_card)
  then have "card (set path) = card {0..<n}" by simp
  with sub show ?thesis
    by (intro card_subset_eq) simp_all
qed

text \<open>
  C1. For \<open>n \<ge> 1\<close> and a start node in \<open>[0, n)\<close>, every path \<^verbatim>\<open>generate_path\<close> returns
  is a permutation of \<open>[0, n)\<close> that begins with the start node: it has \<open>n\<close> entries,
  they are distinct, they are exactly the nodes \<open>0, ..., n - 1\<close>. This holds whatever the
  weights and the random draws are. And the call does return a path when the matrix is
  \<open>n\<close>-by-\<open>n\<close> and the weight of every edge between two different nodes is positive (the
  weights of the candidates of a selection step are such weights, since the last node
  of the path is never a candidate).
\<close>

theorem generate_path_permutation:
  assumes "1 \<le> n" and "0 \<le> start" and "start < n"
  shows "(\<forall>path rs'. generate_path n start ph rs = Inr (path, rs') \<longrightarrow>
            length path = nat n \<and> distinct path \<and> set path = {0..<n} \<and> hd path = start)
       \<and> (length ph = nat n \<and> (\<forall>row \<in> set ph. length row = nat n)
            \<and> (\<forall>a < nat n. \<forall>b < nat n. a \<noteq> b \<longrightarrow> positive (ph ! a ! b))
          \<longrightarrow> (\<exists>path rs'. generate_path n start ph rs = Inr (path, rs')))"
proof -
  have v0: "valid_path n [start]"
    using assms by (simp add: valid_path_def)
  have len: "length [start] + length [1..n - 1] = nat n"
    using assms(1) by simp
  have perm: "length path = nat n \<and> distinct path \<and> set path = {0..<n} \<and> hd path = start"
    if "generate_path n start ph rs = Inr (path, rs')" for path rs'
  proof -
    from that have "generate_path_loop n ph [1..n - 1] ([start], rs)
        = Inr (path, rs')"
      by (simp add: generate_path_def)
    from generate_path_loop_Inr [OF v0 this] len
    have p: "valid_path n path" "length path = nat n" "take 1 path = [start]"
      by simp_all
    have "hd path = start"
      using p(3) by (cases path) simp_all
    with p valid_path_full [OF p(1,2)] show ?thesis
      by (simp add: valid_path_def)
  qed
  have ret: "\<exists>path rs'. generate_path n start ph rs = Inr (path, rs')"
    if "length ph = nat n" "\<forall>row \<in> set ph. length row = nat n"
      "\<forall>a < nat n. \<forall>b < nat n. a \<noteq> b \<longrightarrow> positive (ph ! a ! b)"
    unfolding generate_path_def
    using generate_path_loop_positive [OF v0 _ _ that] len by simp
  from perm ret show ?thesis by blast
qed

theorem generate_path_permutation_witness:
  "generate_path 3 1 [[Fin 1, Fin 1, Fin 1], [Fin 1, Fin 1, Fin 1], [Fin 1, Fin 1, Fin 1]]
       (sconst (1/2)) = Inr ([1, 2, 0], sconst (1/2))
   \<and> length [1, 2, 0::int] = nat 3 \<and> distinct [1, 2, 0::int]
   \<and> set [1, 2, 0::int] = {0..<3} \<and> hd [1, 2, 0::int] = 1"
proof -
  let ?ph = "[[Fin 1, Fin 1, Fin 1], [Fin 1, Fin 1, Fin 1], [Fin 1, Fin 1, Fin 1]]"
  have d1: "np_delete (arange 3) [1] = Inr [0, 2]"
    by (simp add: np_delete_def arange_def py_index_def upt_rec numeral_3_eq_3)
  have d2: "np_delete [Fin 1, Fin 1, Fin 1] [1] = Inr [Fin 1, Fin 1]"
    by (simp add: np_delete_def py_index_def upt_rec)
  have d3: "np_delete (arange 3) [1, 2] = Inr [0]"
    by (simp add: np_delete_def arange_def py_index_def upt_rec numeral_3_eq_3)
  have c: "choices [0, 2::int] [Fin 1, Fin 1] (sconst (1/2)) = Inr ([2], sconst (1/2))"
    by (simp add: choices_def Let_def py_get_def py_index_def
        bisect_done bisect_left bisect_right)
  have s1: "generate_path_step 3 ?ph 1 ([1], sconst (1/2)) = Inr ([1, 2], sconst (1/2))"
    by (simp add: generate_path_step_def d1 d2 c py_get_def py_index_def)
  have s2: "generate_path_step 3 ?ph 2 ([1, 2], sconst (1/2)) = Inr ([1, 2, 0], sconst (1/2))"
    by (simp add: generate_path_step_def d3 py_get_def py_index_def)
  have run: "generate_path 3 1 ?ph (sconst (1/2)) = Inr ([1, 2, 0], sconst (1/2))"
    by (simp add: generate_path_def upto_rec1 s1 s2)
  from generate_path_permutation [of 3 1 ?ph "sconst (1/2)"] run
  have "length [1, 2, 0::int] = nat 3 \<and> distinct [1, 2, 0::int]
      \<and> set [1, 2, 0::int] = {0..<3} \<and> hd [1, 2, 0::int] = 1"
    by simp
  with run show ?thesis by simp
qed

section \<open>Arguments out of range\<close>

lemma normalize_indices_out_of_range:
  "i < - int N \<or> int N \<le> i \<Longrightarrow> normalize_indices N (i # is) = Inl IndexError"
  by (simp add: py_index_def)

text \<open>
  C9, as the code has it. \<^verbatim>\<open>generate_path\<close> checks neither argument. For \<open>n \<le> 1\<close>
  the loop \<^verbatim>\<open>range(1, n)\<close> is empty and the call returns the path \<open>[start]\<close>,
  whatever \<open>start\<close> is. For \<open>n \<ge> 2\<close> the first \<^verbatim>\<open>np.delete(all_nodes, path)\<close> raises
  \<^verbatim>\<open>IndexError\<close> when \<open>start\<close> is outside \<open>[-n, n)\<close>.
\<close>

theorem generate_path_failure:
  "(2 \<le> n \<and> (start < - n \<or> n \<le> start) \<longrightarrow>
      generate_path n start ph rs = Inl IndexError)
   \<and> (n \<le> 1 \<longrightarrow> generate_path n start ph rs = Inr ([start], rs))"
proof (intro conjI impI)
  assume a: "2 \<le> n \<and> (start < - n \<or> n \<le> start)"
  then have range: "[1..n - 1] = 1 # [2..n - 1]"
    by (simp add: upto_rec1)
  have "normalize_indices (length (arange n)) [start] = Inl IndexError"
    using a by (intro normalize_indices_out_of_range) (auto simp: arange_def)
  then have "np_delete (arange n) [start] = Inl IndexError"
    by (simp add: np_delete_def)
  then have "generate_path_step n ph 1 ([start], rs) = Inl IndexError"
    by (simp add: generate_path_step_def)
  then show "generate_path n start ph rs = Inl IndexError"
    by (simp add: generate_path_def range)
next
  assume "n \<le> 1"
  then show "generate_path n start ph rs = Inr ([start], rs)"
    by (simp add: generate_path_def)
qed

theorem generate_path_failure_witness:
  "generate_path 3 3 [] (sconst 0) = Inl IndexError
   \<and> generate_path 3 (- 4) [] (sconst 0) = Inl IndexError
   \<and> generate_path 1 0 [] (sconst 0) = Inr ([0], sconst 0)"
  using generate_path_failure [of 3 3 "[]" "sconst 0"]
    generate_path_failure [of 3 "- 4" "[]" "sconst 0"]
    generate_path_failure [of 1 0 "[]" "sconst 0"]
  by simp

text \<open>
  The calls below return a path although \<open>n < 1\<close>, or the start node is not in
  \<open>[0, n)\<close>: with \<open>n = 0\<close>; with \<open>n = 1\<close> and the start node \<open>7\<close>; with \<open>n = 2\<close> and
  the start node \<open>-1\<close>, which numpy reads as an index from the end.
\<close>

theorem generate_path_no_failure:
  "generate_path 0 5 [] (sconst 0) = Inr ([5], sconst 0)
   \<and> generate_path 1 7 [[Fin 1]] (sconst 0) = Inr ([7], sconst 0)
   \<and> generate_path 2 (- 1) [[Fin 1, Fin 1], [Fin 1, Fin 1]] (sconst 0)
       = Inr ([- 1, 0], sconst 0)"
proof -
  have d: "np_delete (arange 2) [- 1] = Inr [0]"
    by (simp add: np_delete_def arange_def py_index_def upt_rec numeral_2_eq_2)
  have s: "generate_path_step 2 [[Fin 1, Fin 1], [Fin 1, Fin 1]] 1 ([- 1], sconst 0)
      = Inr ([- 1, 0], sconst 0)"
    by (simp add: generate_path_step_def d py_get_def py_index_def)
  show ?thesis
    by (simp add: generate_path_def upto_rec1 s)
qed

section \<open>Candidates of weight zero\<close>

lemma accumulate_from_zero:
  "\<forall>w \<in> set ws. w = Fin 0 \<Longrightarrow> \<forall>c \<in> set (accumulate_from (Fin 0) ws). c = Fin 0"
  by (induction ws) simp_all

lemma accumulate_zero:
  assumes "\<forall>w \<in> set ws. w = Fin 0"
  shows "\<forall>c \<in> set (accumulate ws). c = Fin 0"
proof (cases ws)
  case Nil
  then show ?thesis by simp
next
  case (Cons w ws')
  with assms accumulate_from_zero [of ws'] show ?thesis by simp
qed

lemma choices_zero:
  assumes "length weights = length population" "population \<noteq> []"
    and "\<forall>w \<in> set weights. w = Fin 0"
  shows "choices population weights rs = Inl ValueError"
proof -
  let ?cum = "accumulate weights"
  have len: "length ?cum = length population"
    using assms(1) by (simp add: length_accumulate)
  then have ne: "?cum \<noteq> []" using assms(2) by auto
  have "last ?cum = Fin 0"
    using accumulate_zero [OF assms(3)] ne last_in_set by blast
  then show ?thesis
    using len by (simp add: choices_def Let_def py_get_last [OF ne])
qed

text \<open>
  C10. At a selection step of \<^verbatim>\<open>generate_path\<close> (the path so far has \<open>i\<close> distinct
  nodes) at which more than one candidate remains and the weight of every candidate is
  zero, \<^verbatim>\<open>random.choices\<close> raises \<^verbatim>\<open>ValueError\<close> (the total of the weights is not
  greater than zero), the step raises it, and so does the rest of the loop: no node is
  chosen uniformly.
\<close>

theorem generate_path_zero_weights:
  assumes "valid_path n path" and "path \<noteq> []" and "i = int (length path)"
    and "int (length path) + 1 < n"
    and "length ph = nat n" and "\<forall>row \<in> set ph. length row = nat n"
    and "\<forall>c < nat n. int c \<notin> set path \<longrightarrow> ph ! nat (last path) ! c = Fin 0"
  shows "generate_path_step n ph i (path, rs) = Inl ValueError
       \<and> generate_path_loop n ph (i # is) (path, rs) = Inl ValueError"
proof -
  let ?cand = "filter (\<lambda>k. int k \<notin> set path) [0..<nat n]"
  let ?l = "nat (last path)"
  have range: "\<forall>v \<in> set path. 0 \<le> v \<and> v < n"
    using assms(1) by (simp add: valid_path_def list_all_iff)
  have del: "np_delete (arange n) path = Inr (map int ?cand)"
    using range by (rule np_delete_arange)
  have ne: "?cand \<noteq> []"
    using assms(1,4) by (intro candidates_nonempty) simp_all
  have branch: "i \<noteq> n - 1" using assms(3,4) by simp
  have last: "0 \<le> last path" "last path < n"
    using range assms(2) last_in_set by blast+
  have row: "py_get ph (last path) = Inr (ph ! ?l)"
    using last assms(5) by (intro py_get_in_range) simp_all
  have len: "length (ph ! ?l) = nat n"
    using assms(5,6) last by simp
  have del_row: "np_delete (ph ! ?l) path = Inr (map (\<lambda>k. ph ! ?l ! k) ?cand)"
  proof -
    have "\<forall>v \<in> set path. 0 \<le> v \<and> v < int (length (ph ! ?l))"
      using range len by auto
    from np_delete_in_range [OF this] show ?thesis
      by (simp only: len)
  qed
  have zero: "\<forall>w \<in> set (map (\<lambda>k. ph ! ?l ! k) ?cand). w = Fin 0"
    using assms(7) by auto
  have "choices (map int ?cand) (map (\<lambda>k. ph ! ?l ! k) ?cand) rs = Inl ValueError"
    using ne zero by (intro choices_zero) simp_all
  then have step: "generate_path_step n ph i (path, rs) = Inl ValueError"
    using branch
    by (simp add: generate_path_step_def del py_get_last [OF assms(2)] row del_row)
  then show ?thesis by simp
qed

theorem generate_path_zero_weights_witness:
  "generate_path_step 3 [[Fin 0, Fin 0, Fin 0], [Fin 0, Fin 0, Fin 0], [Fin 0, Fin 0, Fin 0]]
       1 ([0], sconst (1/2)) = Inl ValueError
   \<and> generate_path 3 0 [[Fin 0, Fin 0, Fin 0], [Fin 0, Fin 0, Fin 0], [Fin 0, Fin 0, Fin 0]]
       (sconst (1/2)) = Inl ValueError"
proof -
  let ?ph = "[[Fin 0, Fin 0, Fin 0], [Fin 0, Fin 0, Fin 0], [Fin 0, Fin 0, Fin 0]]"
  have zero: "\<forall>c < nat 3. int c \<notin> set [0] \<longrightarrow> ?ph ! nat (last [0]) ! c = Fin 0"
    by (simp add: nth_Cons' numeral_3_eq_3 less_Suc_eq)
  have "generate_path_step 3 ?ph 1 ([0], sconst (1/2)) = Inl ValueError
      \<and> generate_path_loop 3 ?ph (1 # [2]) ([0], sconst (1/2)) = Inl ValueError"
    using zero
    by (intro generate_path_zero_weights) (simp_all add: valid_path_def)
  then show ?thesis
    by (simp add: generate_path_def upto_rec1)
qed

section \<open>The loops of a run\<close>

lemma py_index_Inr: "py_index N i = Inr k \<Longrightarrow> k < N"
  by (auto simp: py_index_def split: if_splits)

lemma update_pheromones_loop_shape:
  "update_pheromones_loop v path xs p = Inr p' \<Longrightarrow> square n p \<Longrightarrow> square n p'"
proof (induction xs arbitrary: p)
  case Nil
  then show ?case by simp
next
  case (Cons x xs)
  from Cons.prems(1) obtain r c where
    "update_pheromones_loop v path xs (p[r := (p ! r)[c := p ! r ! c + v]]) = Inr p'"
    by (auto simp: and_then_eq_Inr)
  moreover have "square n (p[r := (p ! r)[c := p ! r ! c + v]])"
    using Cons.prems(2)
    by (cases "r < length p") (auto simp: square_def list_all_length nth_list_update)
  ultimately show ?case by (rule Cons.IH)
qed

lemma update_pheromones_shape:
  assumes "update_pheromones v path n = Inr p"
  shows "square (nat n) p"
proof -
  from assms obtain z where z: "zeros n = Inr z"
    and loop: "update_pheromones_loop v path [0..<length path - 1] z = Inr p"
    by (auto simp: update_pheromones_def and_then_eq_Inr)
  from z have "square (nat n) z"
    by (auto simp: zeros_def square_def list_all_length split: if_splits)
  with loop show ?thesis by (rule update_pheromones_loop_shape)
qed

lemma square_np_add: "square n A \<Longrightarrow> square n B \<Longrightarrow> square n (np_add A B)"
  by (auto simp: square_def np_add_def list_all_length)

lemma np_add_nth:
  "square n A \<Longrightarrow> square n B \<Longrightarrow> i < n \<Longrightarrow> j < n \<Longrightarrow>
     np_add A B ! i ! j = A ! i ! j + B ! i ! j"
  by (simp add: square_def np_add_def list_all_length)

text \<open>What one ant does to the state.\<close>

lemma ant_Inr:
  assumes "ant n start d f s = Inr s'"
  obtains path rs' fitness p where
    "generate_path n start (pheromones s) (random s) = Inr (path, rs')"
    "get_fitness path d f = Inr fitness"
    "update_pheromones (ld_div (Fin 1) (Fin (real_of_int fitness))) path n = Inr p"
    "s' = s\<lparr>best_fitness :=
              (if ld_less (Fin (real_of_int fitness)) (best_fitness s)
               then Fin (real_of_int fitness) else best_fitness s),
            total_fitness := total_fitness s + fitness,
            pheromone_update := np_add (pheromone_update s) p,
            random := rs',
            evaluated := evaluated s @ [fitness]\<rparr>"
  using assms by (auto simp: ant_def and_then_eq_Inr Let_def)

lemma ant_frame:
  assumes "ant n start d f s = Inr s'"
  shows "pheromones s' = pheromones s \<and> average_fitness_list s' = average_fitness_list s"
  using assms by (elim ant_Inr) simp

lemma ants_frame:
  "ants k n start d f s = Inr s' \<Longrightarrow>
     pheromones s' = pheromones s \<and> average_fitness_list s' = average_fitness_list s"
proof (induction k arbitrary: s)
  case 0
  then show ?case by simp
next
  case (Suc k)
  from Suc.prems obtain s1 where "ant n start d f s = Inr s1" "ants k n start d f s1 = Inr s'"
    by (auto simp: and_then_eq_Inr)
  with Suc.IH [of s1] ant_frame [of n start d f s s1] show ?case by simp
qed

lemma ants_evaluated:
  "ants k n start d f s = Inr s' \<Longrightarrow>
     \<exists>fs. evaluated s' = evaluated s @ fs \<and> length fs = k"
proof (induction k arbitrary: s)
  case 0
  then show ?case by simp
next
  case (Suc k)
  from Suc.prems obtain s1 where s1: "ant n start d f s = Inr s1"
    and rest: "ants k n start d f s1 = Inr s'"
    by (auto simp: and_then_eq_Inr)
  from s1 obtain v where "evaluated s1 = evaluated s @ [v]"
    by (elim ant_Inr) simp
  moreover from Suc.IH [OF rest] obtain fs where
    "evaluated s' = evaluated s1 @ fs" "length fs = k" by blast
  ultimately show ?case by simp
qed

lemma iteration_Inr:
  assumes "iteration m e n start d f s = Inr s'"
  obtains z s1 where "zeros n = Inr z"
    "ants (nat m) n start d f (s\<lparr>total_fitness := 0, pheromone_update := z\<rparr>) = Inr s1"
    "m \<noteq> 0"
    "s' = s1\<lparr>pheromones :=
               map (map (\<lambda>x. ld_mul x e)) (np_add (pheromones s1) (pheromone_update s1)),
             average_fitness_list :=
               average_fitness_list s1 @ [real_of_int (total_fitness s1) / real_of_int m]\<rparr>"
  using assms by (auto simp: iteration_def and_then_eq_Inr split: if_splits)

lemma iteration_evaluated:
  assumes "iteration m e n start d f s = Inr s'"
  shows "\<exists>fs. evaluated s' = evaluated s @ fs \<and> length fs = nat m"
proof -
  from assms obtain z s1 where
    "ants (nat m) n start d f (s\<lparr>total_fitness := 0, pheromone_update := z\<rparr>) = Inr s1"
    and s': "evaluated s' = evaluated s1"
    by (elim iteration_Inr) simp
  from ants_evaluated [OF this(1)] s' show ?thesis by simp
qed

lemma iteration_average:
  assumes "iteration m e n start d f s = Inr s'"
  shows "length (average_fitness_list s') = Suc (length (average_fitness_list s))"
proof -
  from assms obtain z s1 where
    "ants (nat m) n start d f (s\<lparr>total_fitness := 0, pheromone_update := z\<rparr>) = Inr s1"
    and s': "length (average_fitness_list s') = Suc (length (average_fitness_list s1))"
    by (elim iteration_Inr) simp
  from ants_frame [OF this(1)] s' show ?thesis by simp
qed

lemma iterations_loop_average:
  "iterations_loop k m e n start d f s = Inr s' \<Longrightarrow>
     length (average_fitness_list s') = length (average_fitness_list s) + k"
proof (induction k arbitrary: s)
  case 0
  then show ?case by simp
next
  case (Suc k)
  from Suc.prems obtain s1 where s1: "iteration m e n start d f s = Inr s1"
    and rest: "iterations_loop k m e n start d f s1 = Inr s'"
    by (auto simp: and_then_eq_Inr)
  from iteration_average [OF s1] Suc.IH [OF rest] show ?case by simp
qed

lemma iterations_loop_evaluated:
  "iterations_loop k m e n start d f s = Inr s' \<Longrightarrow>
     \<exists>fs. evaluated s' = evaluated s @ fs \<and> length fs = k * nat m"
proof (induction k arbitrary: s)
  case 0
  then show ?case by simp
next
  case (Suc k)
  from Suc.prems obtain s1 where s1: "iteration m e n start d f s = Inr s1"
    and rest: "iterations_loop k m e n start d f s1 = Inr s'"
    by (auto simp: and_then_eq_Inr)
  from iteration_evaluated [OF s1] obtain fs1 where
    "evaluated s1 = evaluated s @ fs1" "length fs1 = nat m" by blast
  moreover from Suc.IH [OF rest] obtain fs where
    "evaluated s' = evaluated s1 @ fs" "length fs = k * nat m" by blast
  ultimately show ?case by simp
qed

lemma main_run_Inr:
  assumes "main_run m e (n, d, f) w = Inr (s, w')"
  obtains ph0 w1 k start w2 where
    "rand n w = Inr (ph0, w1)" "iterations_of m = Inr k" "randint n w1 = Inr (start, w2)"
    "iterations_loop (nat k) m e n start d f
       \<lparr>pheromones = ph0, best_fitness = PInf, average_fitness_list = [],
        total_fitness = 0, pheromone_update = [], random = py_uniform w2,
        evaluated = []\<rparr> = Inr s"
    "w' = w2\<lparr>py_uniform := random s\<rparr>"
  using assms by (auto simp: main_run_def and_then_eq_Inr)

lemma main_Inr:
  assumes "main m e data w = Inr ((avg, best), w')"
  obtains s where "main_run m e data w = Inr (s, w')"
    "avg = average_fitness_list s" "best = best_fitness s"
  using assms by (auto simp: main_def and_then_eq_Inr)

lemma main_length:
  assumes "1 \<le> m" "main m e data w = Inr ((avg, best), w')"
  shows "length avg = nat (10000 div m)"
proof -
  obtain n d f where data: "data = (n, d, f)" by (cases data)
  from assms(2) obtain s where s: "main_run m e (n, d, f) w = Inr (s, w')"
    "avg = average_fitness_list s"
    unfolding data by (elim main_Inr)
  from s(1) obtain ph0 w1 k start w2 where "rand n w = Inr (ph0, w1)"
    and k: "iterations_of m = Inr k" and "randint n w1 = Inr (start, w2)"
    and loop: "iterations_loop (nat k) m e n start d f
       \<lparr>pheromones = ph0, best_fitness = PInf, average_fitness_list = [],
        total_fitness = 0, pheromone_update = [], random = py_uniform w2,
        evaluated = []\<rparr> = Inr s"
    and "w' = w2\<lparr>py_uniform := random s\<rparr>"
    by (rule main_run_Inr)
  from k assms(1) have "k = 10000 div m"
    by (simp add: iterations_of_def split: if_splits)
  with iterations_loop_average [OF loop] s(2) show ?thesis by simp
qed

section \<open>Runs on two nodes\<close>

text \<open>
  With two nodes and the start node \<open>0\<close> every ant walks the path \<open>[0, 1]\<close>, and no
  random number is drawn; the fitness of that path, \<open>c\<close>, is all that matters of \<open>d\<close> and
  \<open>f\<close>. Such runs are the concrete inputs of the theorems about \<^verbatim>\<open>main\<close>: the instance
  \<open>d = [[0, 1], [1, 0]]\<close>, \<open>f = [[0, 2], [2, 0]]\<close> has \<open>c = 4\<close>.
\<close>

lemma two_path: "generate_path 2 0 ph rs = Inr ([0, 1], rs)"
proof -
  have d: "np_delete (arange 2) [0] = Inr [1]"
    by (simp add: np_delete_def arange_def py_index_def upt_rec numeral_2_eq_2)
  have "generate_path_step 2 ph 1 ([0], rs) = Inr ([0, 1], rs)"
    by (simp add: generate_path_step_def d py_get_def py_index_def)
  then show ?thesis
    by (simp add: generate_path_def upto_rec1)
qed

lemma pair_update:
  fixes v :: "'a::comm_monoid_add"
  shows "update_pheromones v [0, 1] 2 = Inr [[0, v], [0, 0]]"
  by (simp add: update_pheromones_def zeros_def py_get_def py_index_def numeral_2_eq_2)

lemma pair_ant:
  assumes "get_fitness [0, 1] d f = Inr c"
  shows "ant 2 0 d f s =
     Inr (s\<lparr>best_fitness := (if ld_less (Fin (real_of_int c)) (best_fitness s)
                              then Fin (real_of_int c) else best_fitness s),
            total_fitness := total_fitness s + c,
            pheromone_update :=
              np_add (pheromone_update s)
                [[0, ld_div (Fin 1) (Fin (real_of_int c))], [0, 0]],
            evaluated := evaluated s @ [c]\<rparr>)"
  by (simp add: ant_def two_path assms pair_update)

lemma pair_ants:
  assumes fit: "get_fitness [0, 1] d f = Inr c"
  shows "\<exists>s'. ants k 2 0 d f s = Inr s'
     \<and> best_fitness s' = (if k = 0 then best_fitness s
                          else if ld_less (Fin (real_of_int c)) (best_fitness s)
                          then Fin (real_of_int c) else best_fitness s)
     \<and> total_fitness s' = total_fitness s + c * int k
     \<and> evaluated s' = evaluated s @ replicate k c
     \<and> average_fitness_list s' = average_fitness_list s
     \<and> random s' = random s"
proof (induction k arbitrary: s)
  case 0
  show ?case by simp
next
  case (Suc k)
  let ?s1 = "s\<lparr>best_fitness := (if ld_less (Fin (real_of_int c)) (best_fitness s)
                              then Fin (real_of_int c) else best_fitness s),
            total_fitness := total_fitness s + c,
            pheromone_update :=
              np_add (pheromone_update s)
                [[0, ld_div (Fin 1) (Fin (real_of_int c))], [0, 0]],
            evaluated := evaluated s @ [c]\<rparr>"
  from Suc.IH [of ?s1] obtain s' where s':
    "ants k 2 0 d f ?s1 = Inr s'"
    "best_fitness s' = (if k = 0 then best_fitness ?s1
                          else if ld_less (Fin (real_of_int c)) (best_fitness ?s1)
                          then Fin (real_of_int c) else best_fitness ?s1)"
    "total_fitness s' = total_fitness ?s1 + c * int k"
    "evaluated s' = evaluated ?s1 @ replicate k c"
    "average_fitness_list s' = average_fitness_list ?s1"
    "random s' = random ?s1"
    by blast
  have "ants (Suc k) 2 0 d f s = Inr s'"
    by (simp only: ants.simps pair_ant [OF fit] and_then_Inr s'(1))
  moreover have "best_fitness s' =
      (if ld_less (Fin (real_of_int c)) (best_fitness s)
       then Fin (real_of_int c) else best_fitness s)"
    using s'(2) by simp
  moreover have "evaluated s' = evaluated s @ replicate (Suc k) c"
    using s'(4) by simp
  moreover have "total_fitness s' = total_fitness s + c * int (Suc k)"
    using s'(3) by (simp add: algebra_simps)
  ultimately show ?case
    using s'(5,6) by simp
qed

lemma pair_iteration:
  assumes fit: "get_fitness [0, 1] d f = Inr c" and m: "1 \<le> m"
  shows "\<exists>s'. iteration m e 2 0 d f s = Inr s'
     \<and> best_fitness s' = (if ld_less (Fin (real_of_int c)) (best_fitness s)
                          then Fin (real_of_int c) else best_fitness s)
     \<and> evaluated s' = evaluated s @ replicate (nat m) c
     \<and> average_fitness_list s' = average_fitness_list s @ [real_of_int c]
     \<and> random s' = random s"
proof -
  let ?z = "replicate 2 (replicate 2 (0::ld))"
  let ?s0 = "s\<lparr>total_fitness := 0, pheromone_update := ?z\<rparr>"
  have z: "zeros 2 = Inr ?z" by (simp add: zeros_def)
  from pair_ants [OF fit, of "nat m" ?s0] obtain s1 where s1:
    "ants (nat m) 2 0 d f ?s0 = Inr s1"
    "best_fitness s1 = (if nat m = 0 then best_fitness ?s0
                          else if ld_less (Fin (real_of_int c)) (best_fitness ?s0)
                          then Fin (real_of_int c) else best_fitness ?s0)"
    "total_fitness s1 = total_fitness ?s0 + c * int (nat m)"
    "evaluated s1 = evaluated ?s0 @ replicate (nat m) c"
    "average_fitness_list s1 = average_fitness_list ?s0"
    "random s1 = random ?s0"
    by blast
  have avg: "real_of_int (total_fitness s1) / real_of_int m = real_of_int c"
    using m s1(3) by simp
  show ?thesis
    using m s1(2,4,5,6) by (simp add: iteration_def z s1(1) avg)
qed

lemma pair_iterations:
  assumes fit: "get_fitness [0, 1] d f = Inr c" and m: "1 \<le> m"
  shows "\<exists>s'. iterations_loop k m e 2 0 d f s = Inr s'
     \<and> best_fitness s' = (if k = 0 then best_fitness s
                          else if ld_less (Fin (real_of_int c)) (best_fitness s)
                          then Fin (real_of_int c) else best_fitness s)
     \<and> evaluated s' = evaluated s @ replicate (k * nat m) c
     \<and> average_fitness_list s' = average_fitness_list s @ replicate k (real_of_int c)
     \<and> random s' = random s"
proof (induction k arbitrary: s)
  case 0
  show ?case by simp
next
  case (Suc k)
  from pair_iteration [OF fit m, of e s] obtain s1 where s1:
    "iteration m e 2 0 d f s = Inr s1"
    "best_fitness s1 = (if ld_less (Fin (real_of_int c)) (best_fitness s)
                          then Fin (real_of_int c) else best_fitness s)"
    "evaluated s1 = evaluated s @ replicate (nat m) c"
    "average_fitness_list s1 = average_fitness_list s @ [real_of_int c]"
    "random s1 = random s"
    by blast
  from Suc.IH [of s1] obtain s' where s':
    "iterations_loop k m e 2 0 d f s1 = Inr s'"
    "best_fitness s' = (if k = 0 then best_fitness s1
                          else if ld_less (Fin (real_of_int c)) (best_fitness s1)
                          then Fin (real_of_int c) else best_fitness s1)"
    "evaluated s' = evaluated s1 @ replicate (k * nat m) c"
    "average_fitness_list s' = average_fitness_list s1 @ replicate k (real_of_int c)"
    "random s' = random s1"
    by blast
  have "iterations_loop (Suc k) m e 2 0 d f s = Inr s'"
    by (simp add: s1(1) s'(1))
  moreover have "best_fitness s' =
      (if ld_less (Fin (real_of_int c)) (best_fitness s)
       then Fin (real_of_int c) else best_fitness s)"
    using s'(2) s1(2) by simp
  moreover have "evaluated s' = evaluated s @ replicate (Suc k * nat m) c"
    using s'(3) s1(3) by (simp add: replicate_add)
  moreover have "average_fitness_list s' =
      average_fitness_list s @ replicate (Suc k) (real_of_int c)"
    using s'(4) s1(4) by simp
  ultimately show ?case
    using s'(5) s1(5) by simp
qed

lemma pair_main_run:
  assumes fit: "get_fitness [0, 1] d f = Inr c"
    and "1 \<le> m" "m \<le> 10000" "shd (np_integers w) = 0"
  shows "\<exists>s. main_run m e (2, d, f) w =
         Inr (s, w\<lparr>np_uniform := sdrop 4 (np_uniform w),
                   np_integers := stl (np_integers w)\<rparr>)
     \<and> best_fitness s = Fin (real_of_int c)
     \<and> evaluated s = replicate (nat (10000 div m) * nat m) c
     \<and> average_fitness_list s = replicate (nat (10000 div m)) (real_of_int c)"
proof -
  let ?rows = "[stake 2 (np_uniform w), stake 2 (sdrop 2 (np_uniform w))]"
  let ?w1 = "w\<lparr>np_uniform := sdrop 4 (np_uniform w)\<rparr>"
  let ?w2 = "?w1\<lparr>np_integers := stl (np_integers w)\<rparr>"
  let ?s0 = "\<lparr>pheromones = map (map Fin) ?rows, best_fitness = PInf,
      average_fitness_list = [], total_fitness = 0, pheromone_update = [],
      random = py_uniform ?w2, evaluated = []\<rparr>"
  have "rand_rows (Suc (Suc 0)) k src = ([stake k src, stake k (sdrop k src)], sdrop (k + k) src)"
    for k and src :: "real stream"
    by simp
  from this [of 2 "np_uniform w"]
  have rows: "rand_rows 2 2 (np_uniform w) = (?rows, sdrop 4 (np_uniform w))"
    by (simp only: numeral_2_eq_2 [symmetric]) simp
  have r: "rand 2 w = Inr (map (map Fin) ?rows, ?w1)"
    by (simp add: rand_def rows del: stake.simps sdrop.simps)
  have i: "iterations_of m = Inr (10000 div m)"
    using assms(2) by (simp add: iterations_of_def)
  have ri: "randint 2 ?w1 = Inr (0, ?w2)"
    using assms(4) by (simp add: randint_def)
  have pos: "nat (10000 div m) \<noteq> 0"
  proof -
    have "0 < 10000 div m"
      using assms(2,3) pos_imp_zdiv_pos_iff [of m 10000] by linarith
    then show ?thesis by simp
  qed
  from pair_iterations [OF fit assms(2), of "nat (10000 div m)" e ?s0] pos obtain s where s:
    "iterations_loop (nat (10000 div m)) m e 2 0 d f ?s0 = Inr s"
    "best_fitness s = Fin (real_of_int c)"
    "evaluated s = replicate (nat (10000 div m) * nat m) c"
    "average_fitness_list s = replicate (nat (10000 div m)) (real_of_int c)"
    "random s = py_uniform w"
    by auto
  have "main_run m e (2, d, f) w = Inr (s, ?w2\<lparr>py_uniform := random s\<rparr>)"
    unfolding main_run_def by (simp only: prod.case r i ri and_then_Inr s(1))
  then have "main_run m e (2, d, f) w = Inr (s, ?w2)"
    by (simp add: s(5))
  with s(2-4) show ?thesis by blast
qed

lemma pair_main:
  assumes fit: "get_fitness [0, 1] d f = Inr c" and "1 \<le> m" "m \<le> 10000"
  shows "main m e (2, d, f)
           \<lparr>np_uniform = sconst (1/2), np_integers = sconst 0, py_uniform = sconst (1/2)\<rparr> =
         Inr ((replicate (nat (10000 div m)) (real_of_int c), Fin (real_of_int c)),
           \<lparr>np_uniform = sconst (1/2), np_integers = sconst 0, py_uniform = sconst (1/2)\<rparr>)"
proof -
  let ?w = "\<lparr>np_uniform = sconst (1/2), np_integers = sconst 0, py_uniform = sconst (1/2)\<rparr>"
  have "shd (np_integers ?w) = 0" by simp
  from pair_main_run [OF assms this, of e] obtain s where
    "main_run m e (2, d, f) ?w =
       Inr (s, ?w\<lparr>np_uniform := sdrop 4 (np_uniform ?w), np_integers := stl (np_integers ?w)\<rparr>)"
    "best_fitness s = Fin (real_of_int c)"
    "average_fitness_list s = replicate (nat (10000 div m)) (real_of_int c)"
    by blast
  then show ?thesis
    by (simp add: main_def)
qed

lemma two_fitness: "get_fitness [0, 1] [[0, 1], [1, 0]] [[0, 2], [2, 0::int]] = Inr 4"
  by (simp add: get_fitness_def py_get_def py_index_def upt_rec numeral_2_eq_2)

lemma two_ant:
  "ant 2 0 [[0, 1], [1, 0]] [[0, 2], [2, 0]] s =
     Inr (s\<lparr>best_fitness := (if ld_less (Fin 4) (best_fitness s) then Fin 4 else best_fitness s),
            total_fitness := total_fitness s + 4,
            pheromone_update :=
              np_add (pheromone_update s) [[Fin 0, Fin (1/4)], [Fin 0, Fin 0]],
            evaluated := evaluated s @ [4]\<rparr>)"
  by (simp add: pair_ant [OF two_fitness] zero_ld_def)

lemma two_main_run:
  assumes "1 \<le> m" "m \<le> 10000" "shd (np_integers w) = 0"
  shows "\<exists>s. main_run m e (2, [[0, 1], [1, 0]], [[0, 2], [2, 0]]) w =
         Inr (s, w\<lparr>np_uniform := sdrop 4 (np_uniform w),
                   np_integers := stl (np_integers w)\<rparr>)
     \<and> best_fitness s = Fin 4
     \<and> evaluated s = replicate (nat (10000 div m) * nat m) 4
     \<and> average_fitness_list s = replicate (nat (10000 div m)) 4"
  using pair_main_run [OF two_fitness assms, of e] by simp

lemma two_main:
  assumes "1 \<le> m" "m \<le> 10000"
  shows "main m e (2, [[0, 1], [1, 0]], [[0, 2], [2, 0]])
           \<lparr>np_uniform = sconst (1/2), np_integers = sconst 0, py_uniform = sconst (1/2)\<rparr> =
         Inr ((replicate (nat (10000 div m)) 4, Fin 4),
           \<lparr>np_uniform = sconst (1/2), np_integers = sconst 0, py_uniform = sconst (1/2)\<rparr>)"
  using pair_main [OF two_fitness assms, of e] by simp

section \<open>The number of iterations\<close>

lemma experiments_loop_lengths:
  assumes "1 \<le> m"
    and "experiments_loop k m e data (biglist, bestlist, w) = Inr (biglist', bestlist', w')"
    and "\<forall>row \<in> set biglist. length row = nat (10000 div m)"
  shows "length biglist' = length biglist + k \<and> length bestlist' = length bestlist + k
       \<and> (\<forall>row \<in> set biglist'. length row = nat (10000 div m))"
  using assms(2,3)
proof (induction k arbitrary: biglist bestlist w)
  case 0
  then show ?case by simp
next
  case (Suc k)
  from Suc.prems(1) obtain avg best w1 where run: "main m e data w = Inr ((avg, best), w1)"
    and rest: "experiments_loop k m e data (biglist @ [avg], bestlist @ [best], w1)
        = Inr (biglist', bestlist', w')"
    by (auto simp: and_then_eq_Inr)
  have "length avg = nat (10000 div m)"
    using assms(1) run by (rule main_length)
  with Suc.prems(2) have "\<forall>row \<in> set (biglist @ [avg]). length row = nat (10000 div m)"
    by simp
  from Suc.IH [OF rest this] show ?case by simp
qed

text \<open>
  C3, as the code has it. The number of iterations of a run is \<^verbatim>\<open>int(10000/m)\<close>, the
  quotient rounded down, not up: for \<open>m \<ge> 1\<close> the series of mean fitness values that
  \<^verbatim>\<open>main\<close> returns has exactly \<open>10000 div m\<close> entries, and \<^verbatim>\<open>experiments\<close> writes
  five such series and prints five best values.
\<close>

theorem run_lengths:
  assumes "1 \<le> m"
  shows "(main m e data w = Inr ((avg, best), w') \<longrightarrow> length avg = nat (10000 div m))
       \<and> (experiments m e data w = Inr (out, w'') \<longrightarrow>
            length (csv_rows out) = 5 \<and> length (printed_best out) = 5
            \<and> (\<forall>row \<in> set (csv_rows out). length row = nat (10000 div m)))"
proof (rule conjI; rule impI)
  assume "main m e data w = Inr ((avg, best), w')"
  with assms show "length avg = nat (10000 div m)" by (rule main_length)
next
  assume "experiments m e data w = Inr (out, w'')"
  then obtain biglist bestlist where
    loop: "experiments_loop 5 m e data ([], [], w) = Inr (biglist, bestlist, w'')"
    and out: "csv_rows out = biglist" "printed_best out = bestlist"
    by (auto simp: experiments_def and_then_eq_Inr)
  from experiments_loop_lengths [OF assms loop] out
  show "length (csv_rows out) = 5 \<and> length (printed_best out) = 5
            \<and> (\<forall>row \<in> set (csv_rows out). length row = nat (10000 div m))"
    by simp
qed

theorem run_lengths_witness:
  "main 7 (Fin (1/2)) (2, [[0, 1], [1, 0]], [[0, 2], [2, 0]])
       \<lparr>np_uniform = sconst (1/2), np_integers = sconst 0, py_uniform = sconst (1/2)\<rparr> =
     Inr ((replicate 1428 4, Fin 4),
       \<lparr>np_uniform = sconst (1/2), np_integers = sconst 0, py_uniform = sconst (1/2)\<rparr>)
   \<and> length (replicate 1428 (4::real)) = nat (10000 div 7)
   \<and> (\<exists>out. experiments 7 (Fin (1/2)) (2, [[0, 1], [1, 0]], [[0, 2], [2, 0]])
         \<lparr>np_uniform = sconst (1/2), np_integers = sconst 0, py_uniform = sconst (1/2)\<rparr> =
       Inr (out,
         \<lparr>np_uniform = sconst (1/2), np_integers = sconst 0, py_uniform = sconst (1/2)\<rparr>)
       \<and> length (csv_rows out) = 5 \<and> length (printed_best out) = 5)"
proof -
  let ?data = "(2, [[0, 1], [1, 0]], [[0, 2], [2, 0]])"
  let ?w = "\<lparr>np_uniform = sconst (1/2), np_integers = sconst 0, py_uniform = sconst (1/2)\<rparr>"
  have run: "main 7 (Fin (1/2)) ?data ?w = Inr ((replicate 1428 4, Fin 4), ?w)"
    using two_main [of 7 "Fin (1/2)"] by simp
  let ?row = "replicate 1428 (4::real)"
  let ?out = "\<lparr>csv_header = [0..<length ?row], csv_rows = [?row, ?row, ?row, ?row, ?row],
      printed_best = [Fin 4, Fin 4, Fin 4, Fin 4, Fin 4]\<rparr>"
  have "experiments_loop (Suc (Suc (Suc (Suc (Suc 0))))) 7 (Fin (1/2)) ?data ([], [], ?w) =
      Inr ([?row, ?row, ?row, ?row, ?row], [Fin 4, Fin 4, Fin 4, Fin 4, Fin 4], ?w)"
    by (simp only: experiments_loop.simps prod.case run and_then_Inr fst_conv snd_conv
        append.simps)
  moreover have "(5::nat) = Suc (Suc (Suc (Suc (Suc 0))))" by simp
  ultimately have five: "experiments_loop 5 7 (Fin (1/2)) ?data ([], [], ?w) =
      Inr ([?row, ?row, ?row, ?row, ?row], [Fin 4, Fin 4, Fin 4, Fin 4, Fin 4], ?w)"
    by (simp only:)
  have first: "py_get [?row, ?row, ?row, ?row, ?row] 0 = Inr ?row"
    using py_get_nat [of 0 "[?row, ?row, ?row, ?row, ?row]"] by simp
  have ex: "experiments 7 (Fin (1/2)) ?data ?w = Inr (?out, ?w)"
    unfolding experiments_def
    by (simp only: five first and_then_Inr prod.case)
  have m: "(1::int) \<le> 7" by simp
  from run_lengths [of 7 "Fin (1/2)" ?data ?w ?row "Fin 4" ?w ?out ?w, OF m] run ex
  have "length ?row = nat (10000 div 7)"
    and "length (csv_rows ?out) = 5 \<and> length (printed_best ?out) = 5"
    by blast+
  with run ex show ?thesis by blast
qed

text \<open>
  With three ants a run has \<open>3333\<close> iterations, and \<open>ceil(10000/3)\<close> is \<open>3334\<close>.
\<close>

theorem run_lengths_not_ceiling:
  "main 3 (Fin 1) (2, [[0, 1], [1, 0]], [[0, 2], [2, 0]])
       \<lparr>np_uniform = sconst (1/2), np_integers = sconst 0, py_uniform = sconst (1/2)\<rparr> =
     Inr ((replicate 3333 4, Fin 4),
       \<lparr>np_uniform = sconst (1/2), np_integers = sconst 0, py_uniform = sconst (1/2)\<rparr>)
   \<and> length (replicate 3333 (4::real)) \<noteq> nat \<lceil>(10000::real) / 3\<rceil>"
  using two_main [of 3 "Fin 1"] by simp

section \<open>The best fitness of a run\<close>

lemma best_of_snoc:
  "best_of (fs @ [v]) =
     (if ld_less (Fin (real_of_int v)) (best_of fs) then Fin (real_of_int v) else best_of fs)"
proof (cases "fs = []")
  case True
  then show ?thesis by (simp add: best_of_def)
next
  case False
  let ?m = "Min (set fs)"
  have "Min (set (fs @ [v])) = min v ?m"
    using False by simp
  then have "best_of (fs @ [v]) = Fin (real_of_int (min v ?m))"
    by (simp only: best_of_def) simp
  moreover have "best_of fs = Fin (real_of_int ?m)"
    using False by (simp only: best_of_def) simp
  moreover have "ld_less (Fin (real_of_int v)) (Fin (real_of_int ?m)) = (v < ?m)"
    by simp
  ultimately show ?thesis
    by (simp only: min_def) auto
qed

lemma best_of_snoc_le: "ld_le (best_of (fs @ [v])) (best_of fs)"
  by (cases "fs = []") (simp_all add: best_of_def)

lemma ant_best:
  assumes "ant n start d f s = Inr s'"
  shows "\<exists>fitness. evaluated s' = evaluated s @ [fitness]
           \<and> best_fitness s' =
               (if ld_less (Fin (real_of_int fitness)) (best_fitness s)
                then Fin (real_of_int fitness) else best_fitness s)"
  using assms by (elim ant_Inr) simp

lemma ant_best_of:
  assumes "ant n start d f s = Inr s'" "best_fitness s = best_of (evaluated s)"
  shows "best_fitness s' = best_of (evaluated s')"
  using ant_best [OF assms(1)] assms(2) by (auto simp: best_of_snoc)

lemma ants_best_of:
  "ants k n start d f s = Inr s' \<Longrightarrow> best_fitness s = best_of (evaluated s) \<Longrightarrow>
     best_fitness s' = best_of (evaluated s')"
proof (induction k arbitrary: s)
  case 0
  then show ?case by simp
next
  case (Suc k)
  from Suc.prems(1) obtain s1 where s1: "ant n start d f s = Inr s1"
    and rest: "ants k n start d f s1 = Inr s'"
    by (auto simp: and_then_eq_Inr)
  from ant_best_of [OF s1 Suc.prems(2)] rest show ?case by (rule Suc.IH [rotated])
qed

lemma iteration_best_of:
  assumes "iteration m e n start d f s = Inr s'" "best_fitness s = best_of (evaluated s)"
  shows "best_fitness s' = best_of (evaluated s')"
proof -
  from assms(1) obtain z s1 where
    run: "ants (nat m) n start d f (s\<lparr>total_fitness := 0, pheromone_update := z\<rparr>) = Inr s1"
    and s': "best_fitness s' = best_fitness s1" "evaluated s' = evaluated s1"
    by (elim iteration_Inr) simp
  from ants_best_of [OF run] assms(2) s' show ?thesis by simp
qed

lemma iterations_loop_best_of:
  "iterations_loop k m e n start d f s = Inr s' \<Longrightarrow> best_fitness s = best_of (evaluated s) \<Longrightarrow>
     best_fitness s' = best_of (evaluated s')"
proof (induction k arbitrary: s)
  case 0
  then show ?case by simp
next
  case (Suc k)
  from Suc.prems(1) obtain s1 where s1: "iteration m e n start d f s = Inr s1"
    and rest: "iterations_loop k m e n start d f s1 = Inr s'"
    by (auto simp: and_then_eq_Inr)
  from iteration_best_of [OF s1 Suc.prems(2)] rest show ?case by (rule Suc.IH [rotated])
qed

lemma main_run_best_of:
  assumes "main_run m e data w = Inr (s, w')"
  shows "best_fitness s = best_of (evaluated s)"
proof -
  obtain n d f where data: "data = (n, d, f)" by (cases data)
  from assms obtain ph0 w1 k start w2 where "rand n w = Inr (ph0, w1)"
    and "iterations_of m = Inr k" and "randint n w1 = Inr (start, w2)"
    and loop: "iterations_loop (nat k) m e n start d f
       \<lparr>pheromones = ph0, best_fitness = PInf, average_fitness_list = [],
        total_fitness = 0, pheromone_update = [], random = py_uniform w2,
        evaluated = []\<rparr> = Inr s"
    and "w' = w2\<lparr>py_uniform := random s\<rparr>"
    unfolding data by (rule main_run_Inr)
  from loop show ?thesis
    by (rule iterations_loop_best_of) (simp add: best_of_def)
qed

text \<open>
  C6. The best fitness of a run starts at \<open>+inf\<close> (the value \<open>best_of []\<close>). An ant
  leaves it as it is, or replaces it by its own fitness when that is strictly smaller;
  so the value never increases, and after every ant it is the least of the fitness
  values evaluated so far. The value \<^verbatim>\<open>main\<close> returns is the least fitness of all the
  ants of the run.
\<close>

theorem best_fitness_is_minimum:
  "(ant n start d f s = Inr s' \<longrightarrow>
      (\<exists>fitness. evaluated s' = evaluated s @ [fitness]
         \<and> best_fitness s' =
             (if ld_less (Fin (real_of_int fitness)) (best_fitness s)
              then Fin (real_of_int fitness) else best_fitness s)
         \<and> (best_fitness s = best_of (evaluated s) \<longrightarrow>
              best_fitness s' = best_of (evaluated s')
              \<and> ld_le (best_fitness s') (best_fitness s))))
   \<and> (main m e data w = Inr ((avg, best), w') \<longrightarrow>
        (\<exists>sf. main_run m e data w = Inr (sf, w') \<and> best = best_fitness sf
           \<and> best = best_of (evaluated sf)))"
proof (rule conjI; rule impI)
  assume a: "ant n start d f s = Inr s'"
  from ant_best [OF a] obtain fitness where fit: "evaluated s' = evaluated s @ [fitness]"
    "best_fitness s' =
       (if ld_less (Fin (real_of_int fitness)) (best_fitness s)
        then Fin (real_of_int fitness) else best_fitness s)"
    by blast
  have "best_fitness s' = best_of (evaluated s') \<and> ld_le (best_fitness s') (best_fitness s)"
    if inv: "best_fitness s = best_of (evaluated s)"
  proof -
    have "best_fitness s' = best_of (evaluated s')"
      using a inv by (rule ant_best_of)
    with inv fit(1) best_of_snoc_le [of "evaluated s" fitness] show ?thesis by simp
  qed
  with fit show "\<exists>fitness. evaluated s' = evaluated s @ [fitness]
         \<and> best_fitness s' =
             (if ld_less (Fin (real_of_int fitness)) (best_fitness s)
              then Fin (real_of_int fitness) else best_fitness s)
         \<and> (best_fitness s = best_of (evaluated s) \<longrightarrow>
              best_fitness s' = best_of (evaluated s')
              \<and> ld_le (best_fitness s') (best_fitness s))"
    by blast
next
  assume "main m e data w = Inr ((avg, best), w')"
  then obtain sf where sf: "main_run m e data w = Inr (sf, w')" "best = best_fitness sf"
    by (elim main_Inr)
  with main_run_best_of [OF sf(1)]
  show "\<exists>sf. main_run m e data w = Inr (sf, w') \<and> best = best_fitness sf
           \<and> best = best_of (evaluated sf)"
    by auto
qed

theorem best_fitness_is_minimum_witness:
  "main 5000 (Fin (1/2)) (2, [[0, 1], [1, 0]], [[0, 2], [2, 0]])
       \<lparr>np_uniform = sconst (1/2), np_integers = sconst 0, py_uniform = sconst (1/2)\<rparr> =
     Inr ((replicate 2 4, Fin 4),
       \<lparr>np_uniform = sconst (1/2), np_integers = sconst 0, py_uniform = sconst (1/2)\<rparr>)
   \<and> (\<exists>sf. main_run 5000 (Fin (1/2)) (2, [[0, 1], [1, 0]], [[0, 2], [2, 0]])
          \<lparr>np_uniform = sconst (1/2), np_integers = sconst 0, py_uniform = sconst (1/2)\<rparr> =
        Inr (sf,
          \<lparr>np_uniform = sconst (1/2), np_integers = sconst 0, py_uniform = sconst (1/2)\<rparr>)
        \<and> evaluated sf = replicate 10000 4 \<and> best_of (evaluated sf) = Fin 4)"
proof -
  let ?data = "(2, [[0, 1], [1, 0]], [[0, 2], [2, 0]])"
  let ?w = "\<lparr>np_uniform = sconst (1/2), np_integers = sconst 0, py_uniform = sconst (1/2)\<rparr>"
  have run: "main 5000 (Fin (1/2)) ?data ?w = Inr ((replicate 2 4, Fin 4), ?w)"
    using two_main [of 5000 "Fin (1/2)"] by simp
  have "shd (np_integers ?w) = 0" by simp
  from two_main_run [of 5000 ?w "Fin (1/2)", OF _ _ this] obtain s where s:
    "main_run 5000 (Fin (1/2)) ?data ?w = Inr (s, ?w)" "evaluated s = replicate 10000 4"
    by auto
  from best_fitness_is_minimum [THEN conjunct2, THEN mp, OF run] s(1)
  have "Fin 4 = best_of (evaluated s)" by auto
  with run s show ?thesis by auto
qed

section \<open>The pheromones are not negative\<close>

lemma nonneg_add: "nonneg a \<Longrightarrow> nonneg b \<Longrightarrow> nonneg (a + b)"
  by (auto simp: nonneg_def)

lemma nonneg_mul: "nonneg a \<Longrightarrow> 0 \<le> r \<Longrightarrow> nonneg (ld_mul a (Fin r))"
  by (auto simp: nonneg_def)

lemma nonneg_oneover: "0 < v \<Longrightarrow> nonneg (ld_div (Fin 1) (Fin (real_of_int v)))"
  by (simp add: nonneg_def)

lemma nonneg_matrix_np_add:
  "nonneg_matrix A \<Longrightarrow> nonneg_matrix B \<Longrightarrow> nonneg_matrix (np_add A B)"
  by (auto simp: nonneg_matrix_def np_add_def list_all_length nonneg_add)

lemma nonneg_matrix_scale:
  "nonneg_matrix A \<Longrightarrow> 0 \<le> r \<Longrightarrow> nonneg_matrix (map (map (\<lambda>x. ld_mul x (Fin r))) A)"
  by (auto simp: nonneg_matrix_def list_all_length nonneg_mul)

lemma nonneg_matrix_bump:
  assumes "nonneg_matrix p" "nonneg v" "r < length p" "c < length (p ! r)"
  shows "nonneg_matrix (p[r := (p ! r)[c := p ! r ! c + v]])"
  using assms
  by (auto simp: nonneg_matrix_def list_all_length nth_list_update nonneg_add)

lemma update_pheromones_loop_nonneg:
  "update_pheromones_loop v path xs p = Inr p' \<Longrightarrow> nonneg v \<Longrightarrow> nonneg_matrix p \<Longrightarrow>
     nonneg_matrix p'"
proof (induction xs arbitrary: p)
  case Nil
  then show ?case by simp
next
  case (Cons x xs)
  from Cons.prems(1) obtain a r b c where
    r: "py_index (length p) a = Inr r" and c: "py_index (length (p ! r)) b = Inr c"
    and rest: "update_pheromones_loop v path xs (p[r := (p ! r)[c := p ! r ! c + v]]) = Inr p'"
    by (auto simp: and_then_eq_Inr)
  have "nonneg_matrix (p[r := (p ! r)[c := p ! r ! c + v]])"
    using Cons.prems(3,2) py_index_Inr [OF r] py_index_Inr [OF c] by (rule nonneg_matrix_bump)
  with rest Cons.prems(2) show ?case by (rule Cons.IH)
qed

lemma update_pheromones_nonneg:
  assumes "update_pheromones v path n = Inr p" "nonneg v"
  shows "nonneg_matrix p"
proof -
  from assms(1) obtain z where z: "zeros n = Inr z"
    and loop: "update_pheromones_loop v path [0..<length path - 1] z = Inr p"
    by (auto simp: update_pheromones_def and_then_eq_Inr)
  from z have "nonneg_matrix z"
    by (auto simp: zeros_def nonneg_matrix_def list_all_length nonneg_def zero_ld_def
        split: if_splits)
  with loop assms(2) show ?thesis by (rule update_pheromones_loop_nonneg)
qed

lemma zeros_nonneg: "zeros n = Inr z \<Longrightarrow> nonneg_matrix z"
  by (auto simp: zeros_def nonneg_matrix_def list_all_length nonneg_def zero_ld_def
      split: if_splits)

lemma ant_nonneg:
  assumes "ant n start d f s = Inr s'" "nonneg_matrix (pheromone_update s)"
    and "\<forall>v \<in> set (drop (length (evaluated s)) (evaluated s')). 0 < v"
  shows "nonneg_matrix (pheromone_update s')"
proof -
  from assms(1) obtain path fitness p where
    p: "update_pheromones (ld_div (Fin 1) (Fin (real_of_int fitness))) path n = Inr p"
    and s': "pheromone_update s' = np_add (pheromone_update s) p"
      "evaluated s' = evaluated s @ [fitness]"
    by (elim ant_Inr) simp
  have "0 < fitness" using assms(3) s'(2) by simp
  then have "nonneg_matrix p"
    by (intro update_pheromones_nonneg [OF p] nonneg_oneover)
  with assms(2) s'(1) show ?thesis by (simp add: nonneg_matrix_np_add)
qed

lemma ants_nonneg:
  "ants k n start d f s = Inr s' \<Longrightarrow> nonneg_matrix (pheromone_update s) \<Longrightarrow>
     \<forall>v \<in> set (drop (length (evaluated s)) (evaluated s')). 0 < v \<Longrightarrow>
     nonneg_matrix (pheromone_update s')"
proof (induction k arbitrary: s)
  case 0
  then show ?case by simp
next
  case (Suc k)
  from Suc.prems(1) obtain s1 where s1: "ant n start d f s = Inr s1"
    and rest: "ants k n start d f s1 = Inr s'"
    by (auto simp: and_then_eq_Inr)
  from s1 obtain v1 where v1: "evaluated s1 = evaluated s @ [v1]"
    by (elim ant_Inr) simp
  from ants_evaluated [OF rest] obtain fs where fs: "evaluated s' = evaluated s1 @ fs"
    by auto
  have pos: "0 < v1" "\<forall>v \<in> set fs. 0 < v"
    using Suc.prems(3) v1 fs by simp_all
  have "nonneg_matrix (pheromone_update s1)"
    using s1 Suc.prems(2) pos(1) v1 by (intro ant_nonneg [OF s1]) simp_all
  moreover have "\<forall>v \<in> set (drop (length (evaluated s1)) (evaluated s')). 0 < v"
    using pos(2) fs by simp
  ultimately show ?case by (rule Suc.IH [OF rest])
qed

lemma iteration_nonneg:
  assumes "iteration m (Fin r) n start d f s = Inr s'" "0 \<le> r"
    and "nonneg_matrix (pheromones s)"
    and "\<forall>v \<in> set (drop (length (evaluated s)) (evaluated s')). 0 < v"
  shows "nonneg_matrix (pheromones s')"
proof -
  from assms(1) obtain z s1 where z: "zeros n = Inr z"
    and run: "ants (nat m) n start d f (s\<lparr>total_fitness := 0, pheromone_update := z\<rparr>) = Inr s1"
    and s': "pheromones s' =
        map (map (\<lambda>x. ld_mul x (Fin r))) (np_add (pheromones s1) (pheromone_update s1))"
      "evaluated s' = evaluated s1"
    by (elim iteration_Inr) simp
  have same: "pheromones s1 = pheromones s"
    using ants_frame [OF run] by simp
  have "nonneg_matrix (pheromone_update s1)"
    using zeros_nonneg [OF z] assms(4) s'(2) by (intro ants_nonneg [OF run]) simp_all
  with same assms(2,3) s'(1) show ?thesis
    by (simp add: nonneg_matrix_np_add nonneg_matrix_scale)
qed

lemma iterations_loop_nonneg:
  "iterations_loop k m (Fin r) n start d f s = Inr s' \<Longrightarrow> 0 \<le> r \<Longrightarrow>
     nonneg_matrix (pheromones s) \<Longrightarrow>
     \<forall>v \<in> set (drop (length (evaluated s)) (evaluated s')). 0 < v \<Longrightarrow>
     nonneg_matrix (pheromones s')"
proof (induction k arbitrary: s)
  case 0
  then show ?case by simp
next
  case (Suc k)
  from Suc.prems(1) obtain s1 where s1: "iteration m (Fin r) n start d f s = Inr s1"
    and rest: "iterations_loop k m (Fin r) n start d f s1 = Inr s'"
    by (auto simp: and_then_eq_Inr)
  from iteration_evaluated [OF s1] obtain fs1 where fs1: "evaluated s1 = evaluated s @ fs1"
    by auto
  from iterations_loop_evaluated [OF rest] obtain fs where fs: "evaluated s' = evaluated s1 @ fs"
    by auto
  have pos: "\<forall>v \<in> set fs1. 0 < v" "\<forall>v \<in> set fs. 0 < v"
    using Suc.prems(4) fs1 fs by simp_all
  have "nonneg_matrix (pheromones s1)"
    using Suc.prems(2,3) pos(1) fs1 by (intro iteration_nonneg [OF s1]) simp_all
  moreover have "\<forall>v \<in> set (drop (length (evaluated s1)) (evaluated s')). 0 < v"
    using pos(2) fs by simp
  ultimately show ?case by (rule Suc.IH [OF rest Suc.prems(2)])
qed

lemma rand_rows_sset:
  "rand_rows k c src = (rows, src') \<Longrightarrow>
     (\<forall>row \<in> set rows. set row \<subseteq> sset src) \<and> sset src' \<subseteq> sset src"
proof (induction k arbitrary: src rows src')
  case 0
  then show ?case by simp
next
  case (Suc k)
  obtain rows1 src1 where r1: "rand_rows k c (sdrop c src) = (rows1, src1)"
    by (cases "rand_rows k c (sdrop c src)")
  with Suc.prems have rows: "rows = stake c src # rows1" and src': "src' = src1"
    by simp_all
  from Suc.IH [OF r1] have "\<forall>row \<in> set rows1. set row \<subseteq> sset (sdrop c src)"
    and "sset src1 \<subseteq> sset (sdrop c src)"
    by blast+
  moreover have "set (stake c src) \<union> sset (sdrop c src) = sset src"
    by (metis stake_sdrop sset_shift)
  ultimately show ?case
    unfolding rows src' by auto
qed

lemma rand_unit_interval:
  assumes "rand n w = Inr (ph0, w1)" "\<forall>x \<in> sset (np_uniform w). 0 \<le> x \<and> x < 1"
  shows "\<forall>row \<in> set ph0. \<forall>x \<in> set row. \<exists>u. x = Fin u \<and> 0 \<le> u \<and> u < 1"
proof -
  obtain rows src' where rr: "rand_rows (nat n) (nat n) (np_uniform w) = (rows, src')"
    by (cases "rand_rows (nat n) (nat n) (np_uniform w)")
  with assms(1) have ph0: "ph0 = map (map Fin) rows"
    by (auto simp: rand_def split: if_splits)
  from rand_rows_sset [OF rr] assms(2) have "\<forall>row \<in> set rows. \<forall>u \<in> set row. 0 \<le> u \<and> u < 1"
    by blast
  then show ?thesis
    unfolding ph0 by auto
qed

lemma unit_interval_nonneg:
  "\<forall>row \<in> set M. \<forall>x \<in> set row. \<exists>u. x = Fin u \<and> 0 \<le> u \<and> u < 1 \<Longrightarrow> nonneg_matrix M"
  by (fastforce simp: nonneg_matrix_def list_all_iff nonneg_def)

text \<open>
  C7. With an evaporation rate in \<open>(0, 1]\<close> the entries of the pheromone matrix are
  finite and not negative for as long as every fitness evaluated is positive:
  \<^verbatim>\<open>np.random.rand\<close> fills the matrix with values of \<open>[0, 1)\<close>; the deposit of a path of
  positive fitness has no negative entry; an iteration whose ants all have a positive
  fitness takes a matrix without negative entries to one without negative entries; and
  so the matrix at the end of a run has none.
\<close>

theorem pheromones_stay_nonnegative:
  assumes "e = Fin r" and "0 < r" and "r \<le> 1"
  shows "(rand n w = Inr (ph0, w1) \<and> (\<forall>x \<in> sset (np_uniform w). 0 \<le> x \<and> x < 1) \<longrightarrow>
            (\<forall>row \<in> set ph0. \<forall>x \<in> set row. \<exists>u. x = Fin u \<and> 0 \<le> u \<and> u < 1))
       \<and> (0 < fitness
            \<and> update_pheromones (ld_div (Fin 1) (Fin (real_of_int fitness))) path n = Inr p \<longrightarrow>
            nonneg_matrix p)
       \<and> (iteration m e n start d f s = Inr s' \<and> nonneg_matrix (pheromones s)
            \<and> (\<forall>v \<in> set (drop (length (evaluated s)) (evaluated s')). 0 < v) \<longrightarrow>
            nonneg_matrix (pheromones s'))
       \<and> (main_run m e data w = Inr (sf, w')
            \<and> (\<forall>x \<in> sset (np_uniform w). 0 \<le> x \<and> x < 1)
            \<and> (\<forall>v \<in> set (evaluated sf). 0 < v) \<longrightarrow>
            nonneg_matrix (pheromones sf))"
proof -
  have init: "\<forall>row \<in> set ph0. \<forall>x \<in> set row. \<exists>u. x = Fin u \<and> 0 \<le> u \<and> u < 1"
    if "rand n w = Inr (ph0, w1)" "\<forall>x \<in> sset (np_uniform w). 0 \<le> x \<and> x < 1"
    using that by (rule rand_unit_interval)
  have deposit: "nonneg_matrix p"
    if "0 < fitness"
      "update_pheromones (ld_div (Fin 1) (Fin (real_of_int fitness))) path n = Inr p"
    using that by (intro update_pheromones_nonneg [OF that(2)] nonneg_oneover)
  have step: "nonneg_matrix (pheromones s')"
    if "iteration m e n start d f s = Inr s'" "nonneg_matrix (pheromones s)"
      "\<forall>v \<in> set (drop (length (evaluated s)) (evaluated s')). 0 < v"
    using that assms(2) unfolding assms(1) by (intro iteration_nonneg [OF that(1) [unfolded assms(1)]]) simp_all
  have run: "nonneg_matrix (pheromones sf)"
    if r: "main_run m e data w = Inr (sf, w')"
      and u: "\<forall>x \<in> sset (np_uniform w). 0 \<le> x \<and> x < 1"
      and v: "\<forall>v \<in> set (evaluated sf). 0 < v"
  proof -
    obtain n d f where data: "data = (n, d, f)" by (cases data)
    from r obtain ph0 w1 k start w2 where ph0: "rand n w = Inr (ph0, w1)"
      and "iterations_of m = Inr k" and "randint n w1 = Inr (start, w2)"
      and loop: "iterations_loop (nat k) m e n start d f
         \<lparr>pheromones = ph0, best_fitness = PInf, average_fitness_list = [],
          total_fitness = 0, pheromone_update = [], random = py_uniform w2,
          evaluated = []\<rparr> = Inr sf"
      and "w' = w2\<lparr>py_uniform := random sf\<rparr>"
      unfolding data by (rule main_run_Inr)
    have "nonneg_matrix ph0"
      using rand_unit_interval [OF ph0 u] by (rule unit_interval_nonneg)
    with v assms(2) show ?thesis
      by (intro iterations_loop_nonneg [OF loop [unfolded assms(1)]]) simp_all
  qed
  from init deposit step run show ?thesis by blast
qed

theorem pheromones_stay_nonnegative_witness:
  "\<exists>sf. main_run 5000 (Fin (1/2)) (2, [[0, 1], [1, 0]], [[0, 2], [2, 0]])
          \<lparr>np_uniform = sconst (1/2), np_integers = sconst 0, py_uniform = sconst (1/2)\<rparr> =
        Inr (sf,
          \<lparr>np_uniform = sconst (1/2), np_integers = sconst 0, py_uniform = sconst (1/2)\<rparr>)
        \<and> evaluated sf = replicate 10000 4 \<and> nonneg_matrix (pheromones sf)"
proof -
  let ?data = "(2, [[0, 1], [1, 0]], [[0, 2], [2, 0]])"
  let ?w = "\<lparr>np_uniform = sconst (1/2), np_integers = sconst 0, py_uniform = sconst (1/2)\<rparr>"
  have "shd (np_integers ?w) = 0" by simp
  from two_main_run [of 5000 ?w "Fin (1/2)", OF _ _ this] obtain s where s:
    "main_run 5000 (Fin (1/2)) ?data ?w = Inr (s, ?w)" "evaluated s = replicate 10000 4"
    by auto
  have u: "\<forall>x \<in> sset (np_uniform ?w). 0 \<le> x \<and> x < 1" by simp
  have v: "\<forall>v \<in> set (evaluated s). 0 < v" by (simp add: s(2))
  have e: "Fin (1/2) = Fin (1/2)" "(0::real) < 1/2" "(1::real)/2 \<le> 1" by simp_all
  note inst = pheromones_stay_nonnegative [where e = "Fin (1/2)" and r = "1/2" and m = 5000
      and data = ?data and w = ?w and sf = s and w' = ?w, OF e,
      THEN conjunct2, THEN conjunct2, THEN conjunct2]
  have "nonneg_matrix (pheromones s)"
    using inst s(1) u v by blast
  with s show ?thesis by blast
qed

section \<open>Deposit, then evaporation\<close>

lemma square_zeros: "zeros n = Inr z \<Longrightarrow> square (nat n) z"
  by (auto simp: zeros_def square_def list_all_length split: if_splits)

lemma ant_shape:
  assumes "ant n start d f s = Inr s'" "square (nat n) (pheromone_update s)"
  shows "square (nat n) (pheromone_update s')"
proof -
  from assms(1) obtain path fitness p where
    p: "update_pheromones (ld_div (Fin 1) (Fin (real_of_int fitness))) path n = Inr p"
    and s': "pheromone_update s' = np_add (pheromone_update s) p"
    by (elim ant_Inr) simp
  from update_pheromones_shape [OF p] assms(2) s' show ?thesis
    by (simp add: square_np_add)
qed

lemma ants_shape:
  "ants k n start d f s = Inr s' \<Longrightarrow> square (nat n) (pheromone_update s) \<Longrightarrow>
     square (nat n) (pheromone_update s')"
proof (induction k arbitrary: s)
  case 0
  then show ?case by simp
next
  case (Suc k)
  from Suc.prems(1) obtain s1 where s1: "ant n start d f s = Inr s1"
    and rest: "ants k n start d f s1 = Inr s'"
    by (auto simp: and_then_eq_Inr)
  from rest ant_shape [OF s1 Suc.prems(2)] show ?case by (rule Suc.IH)
qed

lemma ld_mul_one: "ld_mul x (Fin 1) = x"
  by (cases x) simp_all

lemma square_scale: "square n A \<Longrightarrow> square n (map (map g) A)"
  by (simp add: square_def list_all_length)

lemma scale_nth:
  "square n A \<Longrightarrow> i < n \<Longrightarrow> j < n \<Longrightarrow> map (map g) A ! i ! j = g (A ! i ! j)"
  by (simp add: square_def list_all_length)

lemma np_add_zero:
  fixes A :: "'a::comm_monoid_add list list"
  assumes "square n A" "square n B" "\<forall>i<n. \<forall>j<n. B ! i ! j = 0"
  shows "np_add A B = A"
proof (rule nth_equalityI)
  show len: "length (np_add A B) = length A"
    using assms(1,2) by (simp add: square_def np_add_def)
  fix i assume "i < length (np_add A B)"
  then have i: "i < n" using len assms(1) by (simp add: square_def)
  have rows: "length (A ! i) = n" "length (B ! i) = n" "length A = n" "length B = n"
    using assms(1,2) i by (simp_all add: square_def list_all_length)
  show "np_add A B ! i = A ! i"
  proof (rule nth_equalityI)
    show "length (np_add A B ! i) = length (A ! i)"
      using rows i by (simp add: np_add_def)
    fix j assume "j < length (np_add A B ! i)"
    then have j: "j < n" using rows i by (simp add: np_add_def)
    from np_add_nth [OF assms(1,2) i j] assms(3) i j
    show "np_add A B ! i ! j = A ! i ! j" by simp
  qed
qed

text \<open>
  C5. An iteration first lets its ants accumulate their deposits in
  \<open>pheromone_update\<close>, which starts from zero and is an \<open>n\<close>-by-\<open>n\<close> matrix, and leaves
  the pheromone matrix as it is; then the new matrix is the old one plus the
  accumulated deposits (\<^verbatim>\<open>np.add\<close>), times the evaporation rate. For the \<open>n\<close>-by-\<open>n\<close>
  pheromone matrix of a run this reads, entry by entry: the old entry plus the
  accumulated deposit, times the rate; and with the rate \<open>1\<close> and no deposit the matrix
  does not change.
\<close>

theorem iteration_deposit_then_evaporate:
  assumes "iteration m e n start d f s = Inr s'"
  shows "\<exists>z s1. zeros n = Inr z
           \<and> ants (nat m) n start d f (s\<lparr>total_fitness := 0, pheromone_update := z\<rparr>) = Inr s1
           \<and> pheromones s1 = pheromones s
           \<and> square (nat n) (pheromone_update s1)
           \<and> pheromones s' =
               map (map (\<lambda>x. ld_mul x e)) (np_add (pheromones s) (pheromone_update s1))
           \<and> (square (nat n) (pheromones s) \<longrightarrow>
                 square (nat n) (pheromones s')
                 \<and> (\<forall>i < nat n. \<forall>j < nat n. pheromones s' ! i ! j =
                       ld_mul (pheromones s ! i ! j + pheromone_update s1 ! i ! j) e)
                 \<and> (e = Fin 1 \<and> (\<forall>i < nat n. \<forall>j < nat n. pheromone_update s1 ! i ! j = 0)
                      \<longrightarrow> pheromones s' = pheromones s))"
proof -
  from assms obtain z s1 where z: "zeros n = Inr z"
    and run: "ants (nat m) n start d f (s\<lparr>total_fitness := 0, pheromone_update := z\<rparr>) = Inr s1"
    and s': "pheromones s' =
        map (map (\<lambda>x. ld_mul x e)) (np_add (pheromones s1) (pheromone_update s1))"
    by (elim iteration_Inr) simp
  let ?acc = "pheromone_update s1"
  have same: "pheromones s1 = pheromones s"
    using ants_frame [OF run] by simp
  have acc: "square (nat n) ?acc"
    using square_zeros [OF z] by (intro ants_shape [OF run]) simp
  have eq: "pheromones s' = map (map (\<lambda>x. ld_mul x e)) (np_add (pheromones s) ?acc)"
    unfolding s' same ..
  have rest: "square (nat n) (pheromones s')
      \<and> (\<forall>i < nat n. \<forall>j < nat n. pheromones s' ! i ! j =
            ld_mul (pheromones s ! i ! j + ?acc ! i ! j) e)
      \<and> (e = Fin 1 \<and> (\<forall>i < nat n. \<forall>j < nat n. ?acc ! i ! j = 0)
            \<longrightarrow> pheromones s' = pheromones s)"
    if sq: "square (nat n) (pheromones s)"
  proof -
    have sum: "square (nat n) (np_add (pheromones s) ?acc)"
      using sq acc by (rule square_np_add)
    have new: "square (nat n) (pheromones s')"
      unfolding eq using sum by (rule square_scale)
    have cell: "pheromones s' ! i ! j = ld_mul (pheromones s ! i ! j + ?acc ! i ! j) e"
      if "i < nat n" "j < nat n" for i j
      unfolding eq
      using scale_nth [OF sum that] np_add_nth [OF sq acc that] by simp
    have keep: "pheromones s' = pheromones s"
      if "e = Fin 1" "\<forall>i < nat n. \<forall>j < nat n. ?acc ! i ! j = 0"
    proof -
      have "np_add (pheromones s) ?acc = pheromones s"
        using sq acc that(2) by (rule np_add_zero)
      then show ?thesis
        unfolding eq that(1) by (simp add: ld_mul_one)
    qed
    from new cell keep show ?thesis by blast
  qed
  from z run same acc eq rest show ?thesis by blast
qed

lemma one_path: "generate_path 1 0 ph rs = Inr ([0], rs)"
  by (simp add: generate_path_def)

lemma one_fitness: "get_fitness [0] [[2]] [[3::int]] = Inr 6"
  by (simp add: get_fitness_def py_get_def py_index_def)

lemma one_update: "update_pheromones (Fin (1/6)) [0] 1 = Inr [[Fin 0]]"
  by (simp add: update_pheromones_def zeros_def zero_ld_def)

lemma one_ant:
  "ant 1 0 [[2]] [[3]] s =
     Inr (s\<lparr>best_fitness := (if ld_less (Fin 6) (best_fitness s) then Fin 6 else best_fitness s),
            total_fitness := total_fitness s + 6,
            pheromone_update := np_add (pheromone_update s) [[Fin 0]],
            evaluated := evaluated s @ [6]\<rparr>)"
  by (simp add: ant_def one_path one_fitness one_update)

theorem iteration_deposit_then_evaporate_witness:
  "iteration 1 (Fin (1/2)) 2 0 [[0, 1], [1, 0]] [[0, 2], [2, 0]]
       \<lparr>pheromones = [[Fin 1, Fin 1], [Fin 1, Fin 1]], best_fitness = PInf,
        average_fitness_list = [], total_fitness = 0, pheromone_update = [],
        random = sconst 0, evaluated = []\<rparr> =
     Inr \<lparr>pheromones = [[Fin (1/2), Fin (5/8)], [Fin (1/2), Fin (1/2)]], best_fitness = Fin 4,
        average_fitness_list = [4], total_fitness = 4,
        pheromone_update = [[Fin 0, Fin (1/4)], [Fin 0, Fin 0]],
        random = sconst 0, evaluated = [4]\<rparr>
   \<and> Fin (5/8) = ld_mul (Fin 1 + Fin (1/4)) (Fin (1/2))
   \<and> iteration 1 (Fin 1) 1 0 [[2]] [[3]]
       \<lparr>pheromones = [[Fin (1/3)]], best_fitness = PInf,
        average_fitness_list = [], total_fitness = 0, pheromone_update = [],
        random = sconst 0, evaluated = []\<rparr> =
     Inr \<lparr>pheromones = [[Fin (1/3)]], best_fitness = Fin 6,
        average_fitness_list = [6], total_fitness = 6, pheromone_update = [[Fin 0]],
        random = sconst 0, evaluated = [6]\<rparr>"
proof -
  let ?s = "\<lparr>pheromones = [[Fin 1, Fin 1], [Fin 1, Fin 1]], best_fitness = PInf,
        average_fitness_list = [], total_fitness = 0, pheromone_update = [],
        random = sconst 0, evaluated = []\<rparr>"
  let ?s' = "\<lparr>pheromones = [[Fin (1/2), Fin (5/8)], [Fin (1/2), Fin (1/2)]], best_fitness = Fin 4,
        average_fitness_list = [4], total_fitness = 4,
        pheromone_update = [[Fin 0, Fin (1/4)], [Fin 0, Fin 0]],
        random = sconst 0, evaluated = [4]\<rparr>"
  let ?z = "[[Fin 0, Fin 0], [Fin 0, Fin 0]]"
  let ?s1 = "?s\<lparr>best_fitness := Fin 4, total_fitness := 4,
      pheromone_update := [[Fin 0, Fin (1/4)], [Fin 0, Fin 0]], evaluated := [4]\<rparr>"
  have two: "iteration 1 (Fin (1/2)) 2 0 [[0, 1], [1, 0]] [[0, 2], [2, 0]] ?s = Inr ?s'"
    by (simp add: iteration_def zeros_def two_ant np_add_def zero_ld_def numeral_2_eq_2)
  have one: "iteration 1 (Fin 1) 1 0 [[2]] [[3]]
       \<lparr>pheromones = [[Fin (1/3)]], best_fitness = PInf,
        average_fitness_list = [], total_fitness = 0, pheromone_update = [],
        random = sconst 0, evaluated = []\<rparr> =
     Inr \<lparr>pheromones = [[Fin (1/3)]], best_fitness = Fin 6,
        average_fitness_list = [6], total_fitness = 6, pheromone_update = [[Fin 0]],
        random = sconst 0, evaluated = [6]\<rparr>"
    by (simp add: iteration_def zeros_def one_ant np_add_def zero_ld_def)
  have z: "zeros 2 = Inr ?z"
    by (simp add: zeros_def zero_ld_def numeral_2_eq_2)
  have a: "ants (nat 1) 2 0 [[0, 1], [1, 0]] [[0, 2], [2, 0]]
      (?s\<lparr>total_fitness := 0, pheromone_update := ?z\<rparr>) = Inr ?s1"
    by (simp add: two_ant np_add_def)
  have sq: "square (nat 2) (pheromones ?s)"
    by (simp add: square_def)
  from iteration_deposit_then_evaporate [OF two] sq obtain z' s1 where
    "zeros 2 = Inr z'"
    "ants (nat 1) 2 0 [[0, 1], [1, 0]] [[0, 2], [2, 0]]
       (?s\<lparr>total_fitness := 0, pheromone_update := z'\<rparr>) = Inr s1"
    and cell: "\<forall>i < nat 2. \<forall>j < nat 2. pheromones ?s' ! i ! j =
        ld_mul (pheromones ?s ! i ! j + pheromone_update s1 ! i ! j) (Fin (1/2))"
    by blast
  with z a have "s1 = ?s1" by simp
  with cell [rule_format, of 0 1] have "Fin (5/8) = ld_mul (Fin 1 + Fin (1/4)) (Fin (1/2))"
    by simp
  with two one show ?thesis by blast
qed

section \<open>An ant of fitness zero\<close>

lemma not_finite_add: "\<not> isfinite v \<Longrightarrow> \<not> isfinite (a + v)"
  by (cases a; cases v) simp_all

lemma update_pheromones_loop_infinite:
  assumes "\<not> isfinite v" and "\<forall>u \<in> set path. 0 \<le> u \<and> u < int n"
  shows "square n p \<Longrightarrow> \<forall>x \<in> set xs. Suc x < length path \<Longrightarrow>
     \<exists>p'. update_pheromones_loop v path xs p = Inr p'
       \<and> (\<forall>a<n. \<forall>b<n. \<not> isfinite (p ! a ! b) \<longrightarrow> \<not> isfinite (p' ! a ! b))
       \<and> (\<forall>x \<in> set xs. \<not> isfinite (p' ! nat (path ! x) ! nat (path ! Suc x)))"
proof (induction xs arbitrary: p)
  case Nil
  then show ?case by simp
next
  case (Cons x xs)
  let ?a = "path ! x" and ?b = "path ! Suc x"
  let ?r = "nat ?a" and ?c = "nat ?b"
  let ?q = "p[?r := (p ! ?r)[?c := p ! ?r ! ?c + v]]"
  have x: "Suc x < length path" using Cons.prems(2) by simp
  have a: "0 \<le> ?a" "?a < int n" and b: "0 \<le> ?b" "?b < int n"
    using x assms(2) by (simp_all add: nth_mem)
  have len: "length p = n" and row: "length (p ! ?r) = n"
    using Cons.prems(1) a by (simp_all add: square_def list_all_length)
  have nxt: "py_get path (int x + 1) = Inr ?b"
    using x py_get_nat [of "Suc x" path] by (simp add: add.commute)
  have step: "update_pheromones_loop v path (x # xs) p = update_pheromones_loop v path xs ?q"
    using x a b len row by (simp add: py_get_nat nxt py_index_def)
  have sq: "square n ?q"
    using Cons.prems(1)
    by (cases "?r < length p") (auto simp: square_def list_all_length nth_list_update)
  have rest: "\<forall>x \<in> set xs. Suc x < length path" using Cons.prems(2) by simp
  from Cons.IH [OF sq rest] obtain p' where run: "update_pheromones_loop v path xs ?q = Inr p'"
    and keep: "\<forall>a<n. \<forall>b<n. \<not> isfinite (?q ! a ! b) \<longrightarrow> \<not> isfinite (p' ! a ! b)"
    and edges: "\<forall>x \<in> set xs. \<not> isfinite (p' ! nat (path ! x) ! nat (path ! Suc x))"
    by blast
  have rc: "?r < n" "?c < n" using a b by simp_all
  have cell: "?q ! i ! j = (if i = ?r \<and> j = ?c then p ! i ! j + v else p ! i ! j)"
    if "i < n" "j < n" for i j
    using that len row rc by (cases "i = ?r") (simp_all add: nth_list_update)
  have "\<not> isfinite (?q ! ?r ! ?c)"
    using cell [OF rc] assms(1) by (simp add: not_finite_add)
  with keep rc have here: "\<not> isfinite (p' ! ?r ! ?c)" by blast
  have old: "\<not> isfinite (p' ! i ! j)" if "i < n" "j < n" "\<not> isfinite (p ! i ! j)" for i j
  proof -
    have "\<not> isfinite (?q ! i ! j)"
      using cell [OF that(1,2)] that(3) assms(1) by (simp add: not_finite_add)
    with keep that(1,2) show ?thesis by blast
  qed
  show ?case
    unfolding step using run here edges old by simp
qed

text \<open>
  C8, as the code has it. Nothing in \<^verbatim>\<open>main\<close> looks at a fitness of zero. With numpy's
  default error state \<^verbatim>\<open>np.longdouble(1)/np.longdouble(0)\<close> is \<open>+inf\<close> (and a warning),
  so the ant is evaluated like any other: the run goes on, and the accumulator of the
  deposits holds a value that is not finite at every edge of the ant's path.
\<close>

theorem zero_fitness_deposits_infinity:
  assumes "1 \<le> n" and "0 \<le> start" and "start < n"
    and "generate_path n start (pheromones s) (random s) = Inr (path, rs')"
    and "get_fitness path d f = Inr 0"
    and "square (nat n) (pheromone_update s)"
  shows "\<exists>s'. ant n start d f s = Inr s' \<and> evaluated s' = evaluated s @ [0]
           \<and> (\<forall>x. Suc x < length path \<longrightarrow>
                 \<not> isfinite (pheromone_update s' ! nat (path ! x) ! nat (path ! Suc x)))"
proof -
  have "valid_path n [start]"
    using assms(1-3) by (simp add: valid_path_def)
  moreover from assms(4) have "generate_path_loop n (pheromones s) [1..n - 1] ([start], random s)
      = Inr (path, rs')"
    by (simp add: generate_path_def)
  ultimately have "valid_path n path"
    using generate_path_loop_Inr by blast
  then have entries: "\<forall>u \<in> set path. 0 \<le> u \<and> u < int (nat n)"
    using assms(1) by (auto simp: valid_path_def list_all_iff)
  then have entries': "\<forall>u \<in> set path. 0 \<le> u \<and> u < n"
    using assms(1) by auto
  let ?z = "replicate (nat n) (replicate (nat n) (0::ld))"
  let ?xs = "[0..<length path - 1]"
  have z: "zeros n = Inr ?z" using assms(1) by (simp add: zeros_def)
  have sqz: "square (nat n) ?z" using z by (rule square_zeros)
  have "\<exists>p. update_pheromones_loop PInf path ?xs ?z = Inr p
      \<and> (\<forall>a<nat n. \<forall>b<nat n. \<not> isfinite (?z ! a ! b) \<longrightarrow> \<not> isfinite (p ! a ! b))
      \<and> (\<forall>x \<in> set ?xs. \<not> isfinite (p ! nat (path ! x) ! nat (path ! Suc x)))"
    using entries sqz by (intro update_pheromones_loop_infinite) auto
  then obtain p where loop: "update_pheromones_loop PInf path ?xs ?z = Inr p"
    and inf: "\<forall>x \<in> set ?xs. \<not> isfinite (p ! nat (path ! x) ! nat (path ! Suc x))"
    by blast
  from loop have p: "update_pheromones PInf path n = Inr p"
    by (simp add: update_pheromones_def z)
  from inf have edges: "\<not> isfinite (p ! nat (path ! x) ! nat (path ! Suc x))"
    if "Suc x < length path" for x
    using that by auto
  let ?s' = "s\<lparr>best_fitness :=
              (if ld_less (Fin 0) (best_fitness s) then Fin 0 else best_fitness s),
            total_fitness := total_fitness s + 0,
            pheromone_update := np_add (pheromone_update s) p,
            random := rs',
            evaluated := evaluated s @ [0]\<rparr>"
  have run: "ant n start d f s = Inr ?s'"
    by (simp add: ant_def assms(4,5) p)
  have sqp: "square (nat n) p" using p by (rule update_pheromones_shape)
  have "\<not> isfinite (pheromone_update ?s' ! nat (path ! x) ! nat (path ! Suc x))"
    if x: "Suc x < length path" for x
  proof -
    have i: "nat (path ! x) < nat n" and j: "nat (path ! Suc x) < nat n"
      using entries' x assms(1) by (simp_all add: nth_mem nat_less_iff)
    from np_add_nth [OF assms(6) sqp i j] edges [OF x] show ?thesis
      by (simp add: not_finite_add)
  qed
  with run show ?thesis by force
qed

lemma zero_fitness: "get_fitness [0, 1] [[0, 0], [0, 0]] [[0, 0], [0, 0::int]] = Inr 0"
  by (simp add: get_fitness_def py_get_def py_index_def upt_rec numeral_2_eq_2)

lemma infinite_update:
  "update_pheromones PInf [0, 1] 2 = Inr [[Fin 0, PInf], [Fin 0, Fin 0]]"
  by (simp add: update_pheromones_def zeros_def py_get_def py_index_def zero_ld_def
      numeral_2_eq_2)

lemma zero_ant:
  "ant 2 0 [[0, 0], [0, 0]] [[0, 0], [0, 0]] s =
     Inr (s\<lparr>best_fitness := (if ld_less (Fin 0) (best_fitness s) then Fin 0 else best_fitness s),
            total_fitness := total_fitness s,
            pheromone_update := np_add (pheromone_update s) [[Fin 0, PInf], [Fin 0, Fin 0]],
            evaluated := evaluated s @ [0]\<rparr>)"
  by (simp add: ant_def two_path zero_fitness infinite_update)

theorem zero_fitness_deposits_infinity_witness:
  "ant 2 0 [[0, 0], [0, 0]] [[0, 0], [0, 0]]
       \<lparr>pheromones = [[Fin 1, Fin 1], [Fin 1, Fin 1]], best_fitness = PInf,
        average_fitness_list = [], total_fitness = 0,
        pheromone_update = [[Fin 0, Fin 0], [Fin 0, Fin 0]],
        random = sconst 0, evaluated = []\<rparr> =
     Inr \<lparr>pheromones = [[Fin 1, Fin 1], [Fin 1, Fin 1]], best_fitness = Fin 0,
        average_fitness_list = [], total_fitness = 0,
        pheromone_update = [[Fin 0, PInf], [Fin 0, Fin 0]],
        random = sconst 0, evaluated = [0]\<rparr>
   \<and> \<not> isfinite ([[Fin 0, PInf], [Fin 0, Fin 0]] ! nat ([0, 1] ! 0) ! nat ([0, 1] ! Suc 0))"
proof -
  let ?s = "\<lparr>pheromones = [[Fin 1, Fin 1], [Fin 1, Fin 1]], best_fitness = PInf,
        average_fitness_list = [], total_fitness = 0,
        pheromone_update = [[Fin 0, Fin 0], [Fin 0, Fin 0]],
        random = sconst 0, evaluated = []\<rparr>"
  let ?s' = "\<lparr>pheromones = [[Fin 1, Fin 1], [Fin 1, Fin 1]], best_fitness = Fin 0,
        average_fitness_list = [], total_fitness = 0,
        pheromone_update = [[Fin 0, PInf], [Fin 0, Fin 0]],
        random = sconst 0, evaluated = [0]\<rparr>"
  have run: "ant 2 0 [[0, 0], [0, 0]] [[0, 0], [0, 0]] ?s = Inr ?s'"
    by (simp add: zero_ant np_add_def)
  have path: "generate_path 2 0 (pheromones ?s) (random ?s) = Inr ([0, 1], sconst 0)"
    by (simp add: two_path)
  have sq: "square (nat 2) (pheromone_update ?s)"
    by (simp add: square_def)
  from zero_fitness_deposits_infinity [OF _ _ _ path zero_fitness sq] obtain s' where
    "ant 2 0 [[0, 0], [0, 0]] [[0, 0], [0, 0]] ?s = Inr s'"
    "\<forall>x. Suc x < length [0, 1::int] \<longrightarrow>
       \<not> isfinite (pheromone_update s' ! nat ([0, 1] ! x) ! nat ([0, 1] ! Suc x))"
    by auto
  with run have "\<not> isfinite (pheromone_update ?s' ! nat ([0, 1] ! 0) ! nat ([0, 1] ! Suc 0))"
    by auto
  with run show ?thesis by simp
qed

text \<open>
  Ants of fitness zero: the call of \<^verbatim>\<open>ant\<close> returns with \<open>+inf\<close> in the accumulator;
  an iteration of one such ant returns with \<open>+inf\<close> in the pheromone matrix; and a
  whole run of one iteration of \<open>10000\<close> such ants returns its result, the mean \<open>0\<close> and
  the best fitness \<open>0\<close>.
\<close>

theorem zero_fitness_does_not_fail:
  "ant 2 0 [[0, 0], [0, 0]] [[0, 0], [0, 0]]
       \<lparr>pheromones = [[Fin 1, Fin 1], [Fin 1, Fin 1]], best_fitness = PInf,
        average_fitness_list = [], total_fitness = 0,
        pheromone_update = [[Fin 0, Fin 0], [Fin 0, Fin 0]],
        random = sconst 0, evaluated = []\<rparr> =
     Inr \<lparr>pheromones = [[Fin 1, Fin 1], [Fin 1, Fin 1]], best_fitness = Fin 0,
        average_fitness_list = [], total_fitness = 0,
        pheromone_update = [[Fin 0, PInf], [Fin 0, Fin 0]],
        random = sconst 0, evaluated = [0]\<rparr>
   \<and> iteration 1 (Fin (1/2)) 2 0 [[0, 0], [0, 0]] [[0, 0], [0, 0]]
       \<lparr>pheromones = [[Fin 1, Fin 1], [Fin 1, Fin 1]], best_fitness = PInf,
        average_fitness_list = [], total_fitness = 0, pheromone_update = [],
        random = sconst 0, evaluated = []\<rparr> =
     Inr \<lparr>pheromones = [[Fin (1/2), PInf], [Fin (1/2), Fin (1/2)]], best_fitness = Fin 0,
        average_fitness_list = [0], total_fitness = 0,
        pheromone_update = [[Fin 0, PInf], [Fin 0, Fin 0]],
        random = sconst 0, evaluated = [0]\<rparr>
   \<and> main 10000 (Fin (1/2)) (2, [[0, 0], [0, 0]], [[0, 0], [0, 0]])
       \<lparr>np_uniform = sconst (1/2), np_integers = sconst 0, py_uniform = sconst (1/2)\<rparr> =
     Inr (([0], Fin 0),
       \<lparr>np_uniform = sconst (1/2), np_integers = sconst 0, py_uniform = sconst (1/2)\<rparr>)"
proof -
  have "main 10000 (Fin (1/2)) (2, [[0, 0], [0, 0]], [[0, 0], [0, 0]])
       \<lparr>np_uniform = sconst (1/2), np_integers = sconst 0, py_uniform = sconst (1/2)\<rparr> =
     Inr (([0], Fin 0),
       \<lparr>np_uniform = sconst (1/2), np_integers = sconst 0, py_uniform = sconst (1/2)\<rparr>)"
    using pair_main [OF zero_fitness, of 10000 "Fin (1/2)"] by simp
  then show ?thesis
    by (simp add: iteration_def zeros_def zero_ant np_add_def zero_ld_def numeral_2_eq_2)
qed

end
